theory Spec2Isabelle
  imports Main
begin

section \<open>Data dependence graph: \<^verbatim>\<open>pyflow/analysis/ddg/graph.py\<close>\<close>

text \<open>
  The graph owns its nodes: \<^verbatim>\<open>self.nodes\<close> lists every \<^verbatim>\<open>DDGNode\<close> object in the order of
  creation, nothing ever removes one, and the two dictionaries hold references to the same
  objects. A reference to a node is therefore modelled as the position of the object in
  \<^verbatim>\<open>nodes\<close>; the node's own \<^verbatim>\<open>node_id\<close> field is kept as the separate field the code
  assigns from the counter \<^verbatim>\<open>_id\<close>.

  \<^verbatim>\<open>DDGEdge\<close> objects carry no \<^verbatim>\<open>__eq__\<close>, so the sets \<^verbatim>\<open>edges_in\<close> and \<^verbatim>\<open>edges_out\<close> hold one
  entry per created edge; they are kept as lists, newest last.
\<close>

record DDGEdge =
  source :: nat
  target :: nat
  kind :: string
  label :: string

record 'k DDGNode =
  node_id :: nat
  ir_node :: 'k
  category :: string
  edges_in :: "DDGEdge list"
  edges_out :: "DDGEdge list"

record 'k DataDependenceGraph =
  nodes :: "'k DDGNode list"
  next_id :: nat
  op_node_map :: "'k \<rightharpoonup> nat"
  slot_node_map :: "'k \<rightharpoonup> nat"

text \<open>\<^verbatim>\<open>DDGNode.__init__\<close>.\<close>

definition new_DDGNode :: "nat \<Rightarrow> 'k \<Rightarrow> string \<Rightarrow> 'k DDGNode" where
  "new_DDGNode nid ir cat =
     \<lparr>node_id = nid, ir_node = ir, category = cat, edges_in = [], edges_out = []\<rparr>"

text \<open>\<^verbatim>\<open>DDGNode.__eq__\<close>: two nodes are equal when their ids are.\<close>

definition node_eq :: "'k DDGNode \<Rightarrow> 'k DDGNode \<Rightarrow> bool" where
  "node_eq a b = (node_id a = node_id b)"

text \<open>\<^verbatim>\<open>DataDependenceGraph.__init__\<close>; the field \<^verbatim>\<open>_id\<close> is \<open>next_id\<close>.\<close>

definition empty_graph :: "'k DataDependenceGraph" where
  "empty_graph = \<lparr>nodes = [], next_id = 0, op_node_map = Map.empty, slot_node_map = Map.empty\<rparr>"

text \<open>\<^verbatim>\<open>_new_id\<close>: returns the counter and increments it.\<close>

definition new_id :: "'k DataDependenceGraph \<Rightarrow> nat \<times> 'k DataDependenceGraph" where
  "new_id g = (next_id g, g\<lparr>next_id := next_id g + 1\<rparr>)"

definition get_or_create_op_node ::
  "'k \<Rightarrow> 'k DataDependenceGraph \<Rightarrow> nat \<times> 'k DataDependenceGraph" where
  "get_or_create_op_node ir_op g =
     (case op_node_map g ir_op of
        Some node \<Rightarrow> (node, g)
      | None \<Rightarrow>
          (let (nid, g1) = new_id g;
               node = length (nodes g1);
               g2 = g1\<lparr>nodes := nodes g1 @ [new_DDGNode nid ir_op ''op'']\<rparr>
           in (node, g2\<lparr>op_node_map := (op_node_map g2)(ir_op \<mapsto> node)\<rparr>)))"

definition get_or_create_slot_node ::
  "'k \<Rightarrow> 'k DataDependenceGraph \<Rightarrow> nat \<times> 'k DataDependenceGraph" where
  "get_or_create_slot_node ir_slot g =
     (case slot_node_map g ir_slot of
        Some node \<Rightarrow> (node, g)
      | None \<Rightarrow>
          (let (nid, g1) = new_id g;
               node = length (nodes g1);
               g2 = g1\<lparr>nodes := nodes g1 @ [new_DDGNode nid ir_slot ''slot'']\<rparr>
           in (node, g2\<lparr>slot_node_map := (slot_node_map g2)(ir_slot \<mapsto> node)\<rparr>)))"

text \<open>
  \<^verbatim>\<open>DDGNode.add_edge_to\<close>: the new edge joins \<^verbatim>\<open>edges_out\<close> of the source and \<^verbatim>\<open>edges_in\<close> of
  the target. The Python arguments are node objects, so both references are live; a
  reference outside the list (which no caller can hold) leaves the graph as it is.
\<close>

definition add_edge_to ::
  "nat \<Rightarrow> nat \<Rightarrow> string \<Rightarrow> string \<Rightarrow> 'k DataDependenceGraph \<Rightarrow> 'k DataDependenceGraph" where
  "add_edge_to src dst knd lbl g =
     (if src < length (nodes g) \<and> dst < length (nodes g) then
        (let edge = \<lparr>source = src, target = dst, kind = knd, label = lbl\<rparr>;
             ns1 = (nodes g)[src := (nodes g ! src)\<lparr>edges_out := edges_out (nodes g ! src) @ [edge]\<rparr>];
             ns2 = ns1[dst := (ns1 ! dst)\<lparr>edges_in := edges_in (ns1 ! dst) @ [edge]\<rparr>]
         in g\<lparr>nodes := ns2\<rparr>)
      else g)"

definition add_def_use ::
  "nat \<Rightarrow> nat \<Rightarrow> string \<Rightarrow> 'k DataDependenceGraph \<Rightarrow> 'k DataDependenceGraph" where
  "add_def_use def_node use_node lbl g = add_edge_to def_node use_node ''def-use'' lbl g"

definition add_mem_dep ::
  "nat \<Rightarrow> nat \<Rightarrow> string \<Rightarrow> 'k DataDependenceGraph \<Rightarrow> 'k DataDependenceGraph" where
  "add_mem_dep src dst lbl g = add_edge_to src dst ''memory'' lbl g"

text \<open>
  A client of the graph is a finite sequence of calls of its mutating methods, starting
  from \<^verbatim>\<open>DataDependenceGraph()\<close>.
\<close>

datatype 'k ddg_call =
    GetOrCreateOp 'k
  | GetOrCreateSlot 'k
  | AddDefUse nat nat string
  | AddMemDep nat nat string

fun ddg_apply :: "'k ddg_call \<Rightarrow> 'k DataDependenceGraph \<Rightarrow> 'k DataDependenceGraph" where
  "ddg_apply (GetOrCreateOp k) g = snd (get_or_create_op_node k g)"
| "ddg_apply (GetOrCreateSlot k) g = snd (get_or_create_slot_node k g)"
| "ddg_apply (AddDefUse a b l) g = add_def_use a b l g"
| "ddg_apply (AddMemDep a b l) g = add_mem_dep a b l g"

fun ddg_run :: "'k ddg_call list \<Rightarrow> 'k DataDependenceGraph \<Rightarrow> 'k DataDependenceGraph" where
  "ddg_run [] g = g"
| "ddg_run (c # cs) g = ddg_run cs (ddg_apply c g)"

text \<open>The keys a call sequence passes to each of the two get-or-create methods.\<close>

fun op_keys :: "'k ddg_call list \<Rightarrow> 'k set" where
  "op_keys [] = {}"
| "op_keys (GetOrCreateOp k # cs) = insert k (op_keys cs)"
| "op_keys (_ # cs) = op_keys cs"

fun slot_keys :: "'k ddg_call list \<Rightarrow> 'k set" where
  "slot_keys [] = {}"
| "slot_keys (GetOrCreateSlot k # cs) = insert k (slot_keys cs)"
| "slot_keys (_ # cs) = slot_keys cs"

definition keys_passed :: "'k ddg_call list \<Rightarrow> 'k set" where
  "keys_passed cs = op_keys cs \<union> slot_keys cs"

text \<open>
  The node object a get-or-create call hands back, read from the graph the call leaves.
\<close>

definition op_node_of :: "'k \<Rightarrow> 'k DataDependenceGraph \<Rightarrow> 'k DDGNode" where
  "op_node_of k g = (case get_or_create_op_node k g of (n, g') \<Rightarrow> nodes g' ! n)"

definition slot_node_of :: "'k \<Rightarrow> 'k DataDependenceGraph \<Rightarrow> 'k DDGNode" where
  "slot_node_of k g = (case get_or_create_slot_node k g of (n, g') \<Rightarrow> nodes g' ! n)"

text \<open>
  What every graph built by the methods satisfies: the counter is the number of nodes, the
  node at position \<open>i\<close> carries id \<open>i\<close>, each dictionary entry refers to a node with that key
  and the dictionary's category, and every node was created for exactly one entry.
\<close>

definition ddg_inv :: "'k DataDependenceGraph \<Rightarrow> bool" where
  "ddg_inv g \<longleftrightarrow>
     next_id g = length (nodes g)
   \<and> map node_id (nodes g) = [0..<length (nodes g)]
   \<and> (\<forall>k n. op_node_map g k = Some n \<longrightarrow>
         n < length (nodes g) \<and> ir_node (nodes g ! n) = k \<and> category (nodes g ! n) = ''op'')
   \<and> (\<forall>k n. slot_node_map g k = Some n \<longrightarrow>
         n < length (nodes g) \<and> ir_node (nodes g ! n) = k \<and> category (nodes g ! n) = ''slot'')
   \<and> finite (dom (op_node_map g)) \<and> finite (dom (slot_node_map g))
   \<and> length (nodes g) = card (dom (op_node_map g)) + card (dom (slot_node_map g))"

subsection \<open>Facts about the graph methods\<close>


lemma ddg_inv_empty: "ddg_inv empty_graph"
  by (simp add: ddg_inv_def empty_graph_def)

lemma op_hit: "op_node_map g k = Some n \<Longrightarrow> get_or_create_op_node k g = (n, g)"
  by (simp add: get_or_create_op_node_def)

lemma op_miss:
  "op_node_map g k = None \<Longrightarrow>
   get_or_create_op_node k g =
     (length (nodes g),
      g\<lparr>next_id := next_id g + 1,
        nodes := nodes g @ [new_DDGNode (next_id g) k ''op''],
        op_node_map := (op_node_map g)(k \<mapsto> length (nodes g))\<rparr>)"
  by (simp add: get_or_create_op_node_def new_id_def Let_def)

lemma slot_hit: "slot_node_map g k = Some n \<Longrightarrow> get_or_create_slot_node k g = (n, g)"
  by (simp add: get_or_create_slot_node_def)

lemma slot_miss:
  "slot_node_map g k = None \<Longrightarrow>
   get_or_create_slot_node k g =
     (length (nodes g),
      g\<lparr>next_id := next_id g + 1,
        nodes := nodes g @ [new_DDGNode (next_id g) k ''slot''],
        slot_node_map := (slot_node_map g)(k \<mapsto> length (nodes g))\<rparr>)"
  by (simp add: get_or_create_slot_node_def new_id_def Let_def)

lemma ddg_inv_op:
  assumes "ddg_inv g"
  shows "ddg_inv (snd (get_or_create_op_node k g))"
proof (cases "op_node_map g k")
  case (Some n)
  then show ?thesis using assms by (simp add: op_hit)
next
  case None
  then have "k \<notin> dom (op_node_map g)" by (simp add: domIff)
  with assms None show ?thesis
    unfolding ddg_inv_def
    by (auto simp: op_miss new_DDGNode_def nth_append)
qed

lemma ddg_inv_slot:
  assumes "ddg_inv g"
  shows "ddg_inv (snd (get_or_create_slot_node k g))"
proof (cases "slot_node_map g k")
  case (Some n)
  then show ?thesis using assms by (simp add: slot_hit)
next
  case None
  then have "k \<notin> dom (slot_node_map g)" by (simp add: domIff)
  with assms None show ?thesis
    unfolding ddg_inv_def
    by (auto simp: slot_miss new_DDGNode_def nth_append)
qed

lemma ddg_inv_nodes_update:
  assumes "ddg_inv g" and "length ns = length (nodes g)"
    and "\<And>i. i < length ns \<Longrightarrow>
           node_id (ns ! i) = node_id (nodes g ! i) \<and> ir_node (ns ! i) = ir_node (nodes g ! i)
           \<and> category (ns ! i) = category (nodes g ! i)"
  shows "ddg_inv (g\<lparr>nodes := ns\<rparr>)"
proof -
  have "map node_id ns = map node_id (nodes g)"
    using assms(2,3) by (simp add: list_eq_iff_nth_eq)
  moreover have "\<And>n. n < length (nodes g) \<Longrightarrow> ir_node (ns ! n) = ir_node (nodes g ! n)"
    using assms(2,3) by simp
  moreover have "\<And>n. n < length (nodes g) \<Longrightarrow> category (ns ! n) = category (nodes g ! n)"
    using assms(2,3) by simp
  ultimately show ?thesis
    using assms(1,2) unfolding ddg_inv_def by auto
qed

lemma add_edge_to_frame:
  "add_edge_to a b kd l g = g\<lparr>nodes := nodes (add_edge_to a b kd l g)\<rparr>"
  by (auto simp add: add_edge_to_def Let_def)

lemma add_edge_to_length:
  "length (nodes (add_edge_to a b kd l g)) = length (nodes g)"
  by (auto simp add: add_edge_to_def Let_def)

lemma add_edge_to_nth:
  "i < length (nodes g) \<Longrightarrow>
     node_id (nodes (add_edge_to a b kd l g) ! i) = node_id (nodes g ! i)
   \<and> ir_node (nodes (add_edge_to a b kd l g) ! i) = ir_node (nodes g ! i)
   \<and> category (nodes (add_edge_to a b kd l g) ! i) = category (nodes g ! i)"
  by (auto simp add: add_edge_to_def Let_def nth_list_update)

lemma ddg_inv_edge:
  assumes "ddg_inv g"
  shows "ddg_inv (add_edge_to a b kd l g)"
proof -
  have "ddg_inv (g\<lparr>nodes := nodes (add_edge_to a b kd l g)\<rparr>)"
    by (rule ddg_inv_nodes_update [OF assms add_edge_to_length])
       (simp add: add_edge_to_length add_edge_to_nth)
  then show ?thesis
    using add_edge_to_frame [of a b kd l g] by simp
qed

lemma ddg_inv_apply: "ddg_inv g \<Longrightarrow> ddg_inv (ddg_apply c g)"
  by (cases c) (simp_all add: ddg_inv_op ddg_inv_slot ddg_inv_edge add_def_use_def add_mem_dep_def)

lemma ddg_inv_run: "ddg_inv g \<Longrightarrow> ddg_inv (ddg_run cs g)"
  by (induction cs arbitrary: g) (simp_all add: ddg_inv_apply)

lemma dom_op_get_op: "dom (op_node_map (snd (get_or_create_op_node k g))) = insert k (dom (op_node_map g))"
  by (cases "op_node_map g k") (auto simp: op_miss op_hit)

lemma dom_slot_get_op: "slot_node_map (snd (get_or_create_op_node k g)) = slot_node_map g"
  by (cases "op_node_map g k") (auto simp: op_miss op_hit)

lemma dom_slot_get_slot: "dom (slot_node_map (snd (get_or_create_slot_node k g))) = insert k (dom (slot_node_map g))"
  by (cases "slot_node_map g k") (auto simp: slot_miss slot_hit)

lemma dom_op_get_slot: "op_node_map (snd (get_or_create_slot_node k g)) = op_node_map g"
  by (cases "slot_node_map g k") (auto simp: slot_miss slot_hit)

lemma maps_edge:
  "op_node_map (add_edge_to a b kd l g) = op_node_map g"
  "slot_node_map (add_edge_to a b kd l g) = slot_node_map g"
  by (simp_all add: add_edge_to_def Let_def)

lemma dom_op_run: "dom (op_node_map (ddg_run cs g)) = dom (op_node_map g) \<union> op_keys cs"
proof (induction cs arbitrary: g)
  case Nil
  show ?case by simp
next
  case (Cons c cs)
  show ?case
    by (cases c) (simp_all add: Cons dom_op_get_op dom_op_get_slot maps_edge add_def_use_def add_mem_dep_def)
qed

lemma dom_slot_run: "dom (slot_node_map (ddg_run cs g)) = dom (slot_node_map g) \<union> slot_keys cs"
proof (induction cs arbitrary: g)
  case Nil
  show ?case by simp
next
  case (Cons c cs)
  show ?case
    by (cases c) (simp_all add: Cons dom_slot_get_op dom_slot_get_slot maps_edge add_def_use_def add_mem_dep_def)
qed

lemma run_length:
  "length (nodes (ddg_run cs empty_graph)) = card (op_keys cs) + card (slot_keys (cs :: 'k ddg_call list))"
proof -
  have "ddg_inv (ddg_run cs (empty_graph :: 'k DataDependenceGraph))"
    by (rule ddg_inv_run [OF ddg_inv_empty])
  then show ?thesis
    by (simp add: ddg_inv_def dom_op_run dom_slot_run empty_graph_def)
qed


lemma ddg_inv_node_id: "ddg_inv g \<Longrightarrow> i < length (nodes g) \<Longrightarrow> node_id (nodes g ! i) = i"
proof -
  assume a: "ddg_inv g" "i < length (nodes g)"
  then have "map node_id (nodes g) ! i = [0..<length (nodes g)] ! i"
    by (simp add: ddg_inv_def)
  with a(2) show ?thesis by simp
qed

lemma op_after: "op_node_map (snd (get_or_create_op_node k g)) k = Some (fst (get_or_create_op_node k g))"
  by (cases "op_node_map g k") (simp_all add: op_hit op_miss)

lemma slot_after: "slot_node_map (snd (get_or_create_slot_node k g)) k = Some (fst (get_or_create_slot_node k g))"
  by (cases "slot_node_map g k") (simp_all add: slot_hit slot_miss)

lemma op_keep_op: "op_node_map g k = Some n \<Longrightarrow> op_node_map (snd (get_or_create_op_node k' g)) k = Some n"
  by (cases "op_node_map g k'") (auto simp: op_hit op_miss)

lemma slot_keep_slot: "slot_node_map g k = Some n \<Longrightarrow> slot_node_map (snd (get_or_create_slot_node k' g)) k = Some n"
  by (cases "slot_node_map g k'") (auto simp: slot_hit slot_miss)

lemma op_keep_run: "op_node_map g k = Some n \<Longrightarrow> op_node_map (ddg_run ds g) k = Some n"
proof (induction ds arbitrary: g)
  case Nil
  then show ?case by simp
next
  case (Cons c ds)
  show ?case
    by (cases c) (simp_all add: Cons op_keep_op dom_op_get_slot maps_edge add_def_use_def add_mem_dep_def)
qed

lemma slot_keep_run: "slot_node_map g k = Some n \<Longrightarrow> slot_node_map (ddg_run ds g) k = Some n"
proof (induction ds arbitrary: g)
  case Nil
  then show ?case by simp
next
  case (Cons c ds)
  show ?case
    by (cases c) (simp_all add: Cons slot_keep_slot dom_slot_get_op maps_edge add_def_use_def add_mem_dep_def)
qed

lemma op_node_of_props:
  assumes "ddg_inv g"
  shows "node_id (op_node_of k g) = fst (get_or_create_op_node k g)"
    and "ir_node (op_node_of k g) = k" and "category (op_node_of k g) = ''op''"
    and "fst (get_or_create_op_node k g) < length (nodes (snd (get_or_create_op_node k g)))"
proof -
  let ?n = "fst (get_or_create_op_node k g)" and ?g = "snd (get_or_create_op_node k g)"
  have inv: "ddg_inv ?g" by (rule ddg_inv_op [OF assms])
  have m: "op_node_map ?g k = Some ?n" by (rule op_after)
  from inv m have b: "?n < length (nodes ?g)" "ir_node (nodes ?g ! ?n) = k" "category (nodes ?g ! ?n) = ''op''"
    unfolding ddg_inv_def by blast+
  have e: "op_node_of k g = nodes ?g ! ?n" by (simp add: op_node_of_def split_beta)
  show "node_id (op_node_of k g) = ?n" using ddg_inv_node_id [OF inv b(1)] e by simp
  show "ir_node (op_node_of k g) = k" using b e by simp
  show "category (op_node_of k g) = ''op''" using b e by simp
  show "?n < length (nodes ?g)" by (rule b(1))
qed

lemma slot_node_of_props:
  assumes "ddg_inv g"
  shows "node_id (slot_node_of k g) = fst (get_or_create_slot_node k g)"
    and "ir_node (slot_node_of k g) = k" and "category (slot_node_of k g) = ''slot''"
    and "fst (get_or_create_slot_node k g) < length (nodes (snd (get_or_create_slot_node k g)))"
proof -
  let ?n = "fst (get_or_create_slot_node k g)" and ?g = "snd (get_or_create_slot_node k g)"
  have inv: "ddg_inv ?g" by (rule ddg_inv_slot [OF assms])
  have m: "slot_node_map ?g k = Some ?n" by (rule slot_after)
  from inv m have b: "?n < length (nodes ?g)" "ir_node (nodes ?g ! ?n) = k" "category (nodes ?g ! ?n) = ''slot''"
    unfolding ddg_inv_def by blast+
  have e: "slot_node_of k g = nodes ?g ! ?n" by (simp add: slot_node_of_def split_beta)
  show "node_id (slot_node_of k g) = ?n" using ddg_inv_node_id [OF inv b(1)] e by simp
  show "ir_node (slot_node_of k g) = k" using b e by simp
  show "category (slot_node_of k g) = ''slot''" using b e by simp
  show "?n < length (nodes ?g)" by (rule b(1))
qed

lemma op_fresh_ref: "op_node_map g k = None \<Longrightarrow> fst (get_or_create_op_node k g) = length (nodes g)"
  by (simp add: op_miss)

lemma slot_fresh_ref: "slot_node_map g k = None \<Longrightarrow> fst (get_or_create_slot_node k g) = length (nodes g)"
  by (simp add: slot_miss)

lemma op_ref_distinct:
  assumes "ddg_inv g" "op_node_map g k = Some n" "op_node_map g k' = Some n'" "k \<noteq> k'"
  shows "n \<noteq> n'"
  using assms unfolding ddg_inv_def by metis

lemma op_slot_ref_distinct:
  assumes "ddg_inv g" "op_node_map g k = Some n" "slot_node_map g k' = Some n'"
  shows "n \<noteq> n'"
proof
  assume "n = n'"
  with assms have "category (nodes g ! n) = ''op''" "category (nodes g ! n) = ''slot''"
    unfolding ddg_inv_def by blast+
  then show False by simp
qed


lemma later_op_same:
  assumes "ddg_inv g"
  shows "fst (get_or_create_op_node k (ddg_run ds (snd (get_or_create_op_node k g))))
           = fst (get_or_create_op_node k g)"
  by (simp add: op_hit [OF op_keep_run [OF op_after]])

lemma later_slot_same:
  shows "fst (get_or_create_slot_node k (ddg_run ds (snd (get_or_create_slot_node k g))))
           = fst (get_or_create_slot_node k g)"
  by (simp add: slot_hit [OF slot_keep_run [OF slot_after]])

lemma ids_below_length:
  assumes "ddg_inv g" "x \<in> set (nodes g)"
  shows "node_id x < length (nodes g)"
proof -
  from assms(2) obtain i where "i < length (nodes g)" "x = nodes g ! i"
    by (auto simp: in_set_conv_nth)
  then show ?thesis using ddg_inv_node_id [OF assms(1)] by simp
qed

text \<open>
  Claim C10, as amended. For every graph \<open>g\<close> that a finite sequence \<open>cs\<close> of method calls builds
  from \<^verbatim>\<open>DataDependenceGraph()\<close>, and every key \<open>k\<close>:
  \<^item> a second \<^verbatim>\<open>get_or_create_op_node(k)\<close> (or \<^verbatim>\<open>get_or_create_slot_node(k)\<close>) returns the same
    node object and leaves the graph unchanged, and so does every later call with \<open>k\<close>, whatever
    calls \<open>ds\<close> come in between;
  \<^item> the node returned for \<open>k\<close> has \<open>k\<close> as its \<^verbatim>\<open>ir_node\<close>; a different key of the same method,
    and any key of the other method, gets a node that is not \<^verbatim>\<open>__eq__\<close> to it;
  \<^item> ids are issued in creation order \<open>0, 1, 2, \<dots>\<close>, and a key its method has not seen gets an
    id above every id issued so far;
  \<^item> \<^verbatim>\<open>len(nodes)\<close> is the number of distinct keys passed to \<^verbatim>\<open>get_or_create_op_node\<close> plus
    the number of distinct keys passed to \<^verbatim>\<open>get_or_create_slot_node\<close>.
\<close>

theorem ddg_get_or_create:
  fixes cs ds :: "'k ddg_call list"
  shows
  "let g = ddg_run cs empty_graph;
       g1 = snd (get_or_create_op_node k g);
       g2 = snd (get_or_create_slot_node k g);
       h1 = ddg_run ds g1;
       h2 = ddg_run ds g2
   in get_or_create_op_node k g1 = (fst (get_or_create_op_node k g), g1)
    \<and> get_or_create_slot_node k g2 = (fst (get_or_create_slot_node k g), g2)
    \<and> fst (get_or_create_op_node k h1) = fst (get_or_create_op_node k g)
    \<and> fst (get_or_create_slot_node k h2) = fst (get_or_create_slot_node k g)
    \<and> node_eq (op_node_of k h1) (op_node_of k g)
    \<and> node_eq (slot_node_of k h2) (slot_node_of k g)
    \<and> ir_node (op_node_of k g) = k \<and> category (op_node_of k g) = ''op''
    \<and> ir_node (slot_node_of k g) = k \<and> category (slot_node_of k g) = ''slot''
    \<and> (k' \<noteq> k \<longrightarrow> \<not> node_eq (op_node_of k' h1) (op_node_of k g))
    \<and> (k' \<noteq> k \<longrightarrow> \<not> node_eq (slot_node_of k' h2) (slot_node_of k g))
    \<and> \<not> node_eq (slot_node_of k' h1) (op_node_of k g)
    \<and> \<not> node_eq (op_node_of k' h2) (slot_node_of k g)
    \<and> map node_id (nodes g) = [0..<length (nodes g)]
    \<and> (op_node_map g k = None \<longrightarrow> (\<forall>x \<in> set (nodes g). node_id x < node_id (op_node_of k g)))
    \<and> (slot_node_map g k = None \<longrightarrow> (\<forall>x \<in> set (nodes g). node_id x < node_id (slot_node_of k g)))
    \<and> length (nodes g) = card (op_keys cs) + card (slot_keys cs)"
proof -
  define g :: "'k DataDependenceGraph" where "g = ddg_run cs empty_graph"
  define g1 where "g1 = snd (get_or_create_op_node k g)"
  define g2 where "g2 = snd (get_or_create_slot_node k g)"
  define h1 where "h1 = ddg_run ds g1"
  define h2 where "h2 = ddg_run ds g2"
  define n where "n = fst (get_or_create_op_node k g)"
  define m where "m = fst (get_or_create_slot_node k g)"
  have inv: "ddg_inv g" unfolding g_def by (rule ddg_inv_run [OF ddg_inv_empty])
  have inv1: "ddg_inv g1" unfolding g1_def by (rule ddg_inv_op [OF inv])
  have inv2: "ddg_inv g2" unfolding g2_def by (rule ddg_inv_slot [OF inv])
  have invh1: "ddg_inv h1" unfolding h1_def by (rule ddg_inv_run [OF inv1])
  have invh2: "ddg_inv h2" unfolding h2_def by (rule ddg_inv_run [OF inv2])
  have m1: "op_node_map g1 k = Some n" unfolding g1_def n_def by (rule op_after)
  have m2: "slot_node_map g2 k = Some m" unfolding g2_def m_def by (rule slot_after)
  have mh1: "op_node_map h1 k = Some n" unfolding h1_def by (rule op_keep_run [OF m1])
  have mh2: "slot_node_map h2 k = Some m" unfolding h2_def by (rule slot_keep_run [OF m2])
  have c1: "get_or_create_op_node k g1 = (n, g1)" by (rule op_hit [OF m1])
  have c2: "get_or_create_slot_node k g2 = (m, g2)" by (rule slot_hit [OF m2])
  have c3: "fst (get_or_create_op_node k h1) = n" by (simp add: op_hit [OF mh1])
  have c4: "fst (get_or_create_slot_node k h2) = m" by (simp add: slot_hit [OF mh2])
  have idn: "node_id (op_node_of k g) = n" unfolding n_def by (rule op_node_of_props(1) [OF inv])
  have idm: "node_id (slot_node_of k g) = m" unfolding m_def by (rule slot_node_of_props(1) [OF inv])
  have c5: "node_eq (op_node_of k h1) (op_node_of k g)"
    unfolding node_eq_def using op_node_of_props(1) [OF invh1, of k] c3 idn by simp
  have c6: "node_eq (slot_node_of k h2) (slot_node_of k g)"
    unfolding node_eq_def using slot_node_of_props(1) [OF invh2, of k] c4 idm by simp
  have c7: "k' \<noteq> k \<longrightarrow> \<not> node_eq (op_node_of k' h1) (op_node_of k g)"
  proof
    assume ne: "k' \<noteq> k"
    let ?h = "snd (get_or_create_op_node k' h1)" and ?n' = "fst (get_or_create_op_node k' h1)"
    have "ddg_inv ?h" by (rule ddg_inv_op [OF invh1])
    moreover have "op_node_map ?h k' = Some ?n'" by (rule op_after)
    moreover have "op_node_map ?h k = Some n" by (rule op_keep_op [OF mh1])
    ultimately have "?n' \<noteq> n" using ne op_ref_distinct by metis
    then show "\<not> node_eq (op_node_of k' h1) (op_node_of k g)"
      unfolding node_eq_def using op_node_of_props(1) [OF invh1, of k'] idn by simp
  qed
  have c8: "k' \<noteq> k \<longrightarrow> \<not> node_eq (slot_node_of k' h2) (slot_node_of k g)"
  proof
    assume ne: "k' \<noteq> k"
    let ?h = "snd (get_or_create_slot_node k' h2)" and ?n' = "fst (get_or_create_slot_node k' h2)"
    have "ddg_inv ?h" by (rule ddg_inv_slot [OF invh2])
    moreover have "slot_node_map ?h k' = Some ?n'" by (rule slot_after)
    moreover have "slot_node_map ?h k = Some m" by (rule slot_keep_slot [OF mh2])
    ultimately have "?n' \<noteq> m" using ne unfolding ddg_inv_def by metis
    then show "\<not> node_eq (slot_node_of k' h2) (slot_node_of k g)"
      unfolding node_eq_def using slot_node_of_props(1) [OF invh2, of k'] idm by simp
  qed
  have c9: "\<not> node_eq (slot_node_of k' h1) (op_node_of k g)"
  proof -
    let ?h = "snd (get_or_create_slot_node k' h1)" and ?n' = "fst (get_or_create_slot_node k' h1)"
    have a: "ddg_inv ?h" by (rule ddg_inv_slot [OF invh1])
    have b: "slot_node_map ?h k' = Some ?n'" by (rule slot_after)
    have c: "op_node_map ?h k = Some n" using mh1 by (simp add: dom_op_get_slot)
    have "n \<noteq> ?n'" by (rule op_slot_ref_distinct [OF a c b])
    then show ?thesis
      unfolding node_eq_def using slot_node_of_props(1) [OF invh1, of k'] idn by simp
  qed
  have c10: "\<not> node_eq (op_node_of k' h2) (slot_node_of k g)"
  proof -
    let ?h = "snd (get_or_create_op_node k' h2)" and ?n' = "fst (get_or_create_op_node k' h2)"
    have "ddg_inv ?h" by (rule ddg_inv_op [OF invh2])
    moreover have "op_node_map ?h k' = Some ?n'" by (rule op_after)
    moreover have "slot_node_map ?h k = Some m" using mh2 by (simp add: dom_slot_get_op)
    ultimately have "?n' \<noteq> m" by (rule op_slot_ref_distinct)
    then show ?thesis
      unfolding node_eq_def using op_node_of_props(1) [OF invh2, of k'] idm by simp
  qed
  have c11: "map node_id (nodes g) = [0..<length (nodes g)]"
    using inv by (simp add: ddg_inv_def)
  have c12: "op_node_map g k = None \<longrightarrow> (\<forall>x \<in> set (nodes g). node_id x < node_id (op_node_of k g))"
    using idn ids_below_length [OF inv] by (auto simp: n_def op_fresh_ref)
  have c13: "slot_node_map g k = None \<longrightarrow> (\<forall>x \<in> set (nodes g). node_id x < node_id (slot_node_of k g))"
    using idm ids_below_length [OF inv] by (auto simp: m_def slot_fresh_ref)
  have c14: "length (nodes g) = card (op_keys cs) + card (slot_keys cs)"
    unfolding g_def by (rule run_length)
  note p = op_node_of_props(2,3) [OF inv, of k] slot_node_of_props(2,3) [OF inv, of k]
  show ?thesis
    unfolding Let_def
    apply (fold g_def)
    apply (fold g1_def g2_def)
    apply (fold h1_def h2_def n_def m_def)
    apply (intro conjI)
    apply (rule c1 c2 c3 c4 c5 c6 c7 c8 c9 c10 c11 c12 c13 c14 p)+
    done
qed

text \<open>
  Claim C10 as stated fails in its last part: the two methods keep separate dictionaries, so
  one key passed to both of them creates two nodes, and \<^verbatim>\<open>len(nodes)\<close> is 2 where the number of
  distinct keys passed in is 1.
\<close>

theorem ddg_nodes_length_counterexample:
  "length (nodes (ddg_run [GetOrCreateOp (0::nat), GetOrCreateSlot 0] empty_graph)) = 2
   \<and> card (keys_passed [GetOrCreateOp (0::nat), GetOrCreateSlot 0]) = 1
   \<and> length (nodes (ddg_run [GetOrCreateOp (0::nat), GetOrCreateSlot 0] empty_graph))
       \<noteq> card (keys_passed [GetOrCreateOp (0::nat), GetOrCreateSlot 0])"
  by (simp add: keys_passed_def empty_graph_def get_or_create_op_node_def
      get_or_create_slot_node_def new_id_def Let_def)

text \<open>
  The amended claim C10 at a concrete run: an op node and a slot node for key 1 joined by an
  edge, then the fresh op key 3 and later the op key 2.
\<close>

theorem ddg_get_or_create_witness:
  "op_node_map (ddg_run [GetOrCreateOp (1::nat), GetOrCreateSlot 1, AddDefUse 0 1 ''a''] empty_graph) 3 = None
   \<and> (2::nat) \<noteq> 3
   \<and> \<not> node_eq
        (op_node_of 2 (ddg_run [GetOrCreateOp 2]
           (snd (get_or_create_op_node 3
              (ddg_run [GetOrCreateOp (1::nat), GetOrCreateSlot 1, AddDefUse 0 1 ''a''] empty_graph)))))
        (op_node_of 3 (ddg_run [GetOrCreateOp (1::nat), GetOrCreateSlot 1, AddDefUse 0 1 ''a''] empty_graph))
   \<and> node_id (nodes (ddg_run [GetOrCreateOp (1::nat), GetOrCreateSlot 1, AddDefUse 0 1 ''a''] empty_graph) ! 1)
        < node_id (op_node_of 3 (ddg_run [GetOrCreateOp (1::nat), GetOrCreateSlot 1, AddDefUse 0 1 ''a''] empty_graph))
   \<and> length (nodes (ddg_run [GetOrCreateOp (1::nat), GetOrCreateSlot 1, AddDefUse 0 1 ''a''] empty_graph)) = 2"
proof -
  let ?cs = "[GetOrCreateOp (1::nat), GetOrCreateSlot 1, AddDefUse 0 1 ''a'']"
  let ?g = "ddg_run ?cs empty_graph"
  have nodes: "nodes ?g =
      [\<lparr>node_id = 0, ir_node = 1, category = ''op'', edges_in = [],
         edges_out = [\<lparr>source = 0, target = 1, kind = ''def-use'', label = ''a''\<rparr>]\<rparr>,
       \<lparr>node_id = 1, ir_node = 1, category = ''slot'',
         edges_in = [\<lparr>source = 0, target = 1, kind = ''def-use'', label = ''a''\<rparr>], edges_out = []\<rparr>]"
    by (simp add: empty_graph_def get_or_create_op_node_def get_or_create_slot_node_def
        new_id_def new_DDGNode_def add_def_use_def add_edge_to_def Let_def)
  have fresh: "op_node_map ?g 3 = None"
    by (simp add: empty_graph_def get_or_create_op_node_def get_or_create_slot_node_def
        new_id_def new_DDGNode_def add_def_use_def add_edge_to_def Let_def)
  have keys: "card (op_keys ?cs) + card (slot_keys ?cs) = 2" by simp
  note t = ddg_get_or_create [where k = 3 and cs = ?cs and ds = "[GetOrCreateOp 2]" and k' = 2,
      unfolded Let_def]
  have ne: "(2::nat) \<noteq> 3" by simp
  from t ne have a: "\<not> node_eq
        (op_node_of 2 (ddg_run [GetOrCreateOp 2] (snd (get_or_create_op_node 3 ?g))))
        (op_node_of 3 ?g)" by blast
  from t fresh have b: "\<forall>x \<in> set (nodes ?g). node_id x < node_id (op_node_of 3 ?g)" by blast
  have "nodes ?g ! 1 \<in> set (nodes ?g)" unfolding nodes by simp
  with b have c: "node_id (nodes ?g ! 1) < node_id (op_node_of 3 ?g)" by blast
  from t keys have d: "length (nodes ?g) = 2" by simp
  show ?thesis using fresh ne a c d by blast
qed

section \<open>Constraint-based call graph: \<^verbatim>\<open>pyflow/analysis/callgraph/constraint_based/builder.py\<close>\<close>

subsection \<open>What the module takes from outside\<close>

text \<open>
  The syntax trees of Python's \<^verbatim>\<open>ast\<close> module, as far as the builder can tell them apart: one
  constructor for each node class it tests with \<^verbatim>\<open>isinstance\<close> or reads attributes of, with
  the fields in the order of the class's \<^verbatim>\<open>_fields\<close>, and \<open>Other\<close> for every other class, holding
  the child nodes in the order \<^verbatim>\<open>ast.iter_child_nodes\<close> yields them. Fields that hold no node
  and are never read (\<^verbatim>\<open>type_comment\<close>, \<^verbatim>\<open>level\<close>) are left out. The \<^verbatim>\<open>ctx\<close> node of a name or
  attribute and the \<^verbatim>\<open>alias\<close> nodes of an import have no child and match no test of the
  builder; they are not stored, and \<open>iter_child_nodes\<close> below yields \<open>Other []\<close> in their
  place. The absent entries (\<^verbatim>\<open>None\<close>) of \<^verbatim>\<open>kw_defaults\<close>, which \<^verbatim>\<open>iter_child_nodes\<close> skips, are
  left out.
\<close>

datatype ast =
    Name string
  | Call ast "ast list" "ast list"
  | Attribute ast string
  | Lambda ast ast
  | Assign "ast list" ast
  | Return "ast option"
  | FunctionDef string ast "ast list" "ast list" "ast option" "ast list"
  | AsyncFunctionDef string ast "ast list" "ast list" "ast option" "ast list"
  | ClassDef string "ast list" "ast list" "ast list" "ast list" "ast list"
  | Import "(string \<times> string option) list"
  | ImportFrom "string option" "(string \<times> string option) list"
  | Arguments "ast list" "ast list" "ast option" "ast list" "ast list" "ast option" "ast list"
  | Arg string "ast option"
  | Other "ast list"

text \<open>
  The exceptions that can leave the function: \<^verbatim>\<open>SyntaxError\<close>, which it catches around
  \<^verbatim>\<open>ast.parse\<close>; \<^verbatim>\<open>RecursionError\<close>, which the interpreter raises when the stack is full;
  \<^verbatim>\<open>CallGraphError\<close>, which the module imports with the graph class; and any other.
\<close>

datatype py_error = SyntaxError | RecursionError | CallGraphError | OtherError string

text \<open>
  Everything the function uses and the sources do not hold is a parameter of the model,
  one record for a run:
  \<^item> the interpreter: its recursion limit (\<^verbatim>\<open>sys.getrecursionlimit()\<close>); the head room, the
    number of stack frames that must be free above a frame for the calls which do not nest
    with the input (built-in calls, generators, comprehensions, constructors, the methods
    of the environments and of the graph), which the versions of the interpreter count
    differently; and the order in which it iterates over a set of strings, given the
    elements in the order of their insertion, which depends on the hash seed;
  \<^item> \<^verbatim>\<open>ast.parse\<close>, which raises or returns a \<^verbatim>\<open>Module\<close>, given by its child nodes;
  \<^item> the class \<^verbatim>\<open>CallGraph\<close> of \<^verbatim>\<open>pyflow/machinery/callgraph.py\<close>, which is not among the
    sources: its constructor and its methods \<^verbatim>\<open>add_node\<close> and \<^verbatim>\<open>add_edge\<close>, each of which may
    raise. The graphs are values of any type \<open>'g\<close>.
\<close>

record 'g runtime =
  recursion_limit :: nat
  headroom :: nat
  set_order :: "string list \<Rightarrow> string list"
  ast_parse :: "string \<Rightarrow> py_error + ast list"
  new_CallGraph :: "py_error + 'g"
  add_node :: "string \<Rightarrow> 'g \<Rightarrow> py_error + 'g"
  add_edge :: "string \<Rightarrow> string \<Rightarrow> 'g \<Rightarrow> py_error + 'g"

subsection \<open>Exceptions and the stack\<close>

text \<open>
  A computation that may raise returns the exception on the left. \<open>and_then\<close> runs the next
  step unless the first raised, \<open>for_each\<close> is a loop whose body may raise.
\<close>

definition and_then :: "py_error + 'a \<Rightarrow> ('a \<Rightarrow> py_error + 'b) \<Rightarrow> py_error + 'b" where
  "and_then r f = (case r of Inl e \<Rightarrow> Inl e | Inr x \<Rightarrow> f x)"

fun for_each :: "('a \<Rightarrow> 's \<Rightarrow> py_error + 's) \<Rightarrow> 'a list \<Rightarrow> 's \<Rightarrow> py_error + 's" where
  "for_each f [] s = Inr s"
| "for_each f (x # xs) s = and_then (f x s) (for_each f xs)"

text \<open>
  A call from a frame at depth \<open>d\<close> of one of the functions that nest with the input
  (\<^verbatim>\<open>visit\<close>, \<^verbatim>\<open>generic_visit\<close>, the \<^verbatim>\<open>visit_\<close> methods, \<^verbatim>\<open>_handle_call\<close>,
  \<^verbatim>\<open>_handle_method_call\<close>, \<^verbatim>\<open>_propagate_args_to_callee\<close>, \<^verbatim>\<open>_resolve_call_target\<close>,
  \<^verbatim>\<open>_collect_declarations\<close>, \<^verbatim>\<open>collect_from_node\<close>): the new frame is at depth \<open>d + 1\<close>, and the
  interpreter raises \<^verbatim>\<open>RecursionError\<close> when that frame and the head room above it do not
  fit under the limit. With head room 0 only the frames of these functions are counted, so
  the computation raises only where every interpreter raises; with a head room that is at
  least the deepest chain of the other calls it returns only where the interpreter returns.
\<close>

definition call :: "'g runtime \<Rightarrow> nat \<Rightarrow> (nat \<Rightarrow> py_error + 'a) \<Rightarrow> py_error + 'a" where
  "call rt d f =
     (if recursion_limit rt < Suc d + headroom rt then Inl RecursionError else f (Suc d))"

lemma for_each_cong [fundef_cong]:
  "xs = ys \<Longrightarrow> s = t \<Longrightarrow> (\<And>x u. x \<in> set ys \<Longrightarrow> f x u = g x u)
     \<Longrightarrow> for_each f xs s = for_each g ys t"
proof (induction ys arbitrary: xs s t)
  case Nil
  then show ?case by simp
next
  case (Cons y ys)
  have "for_each f ys = for_each g ys"
  proof
    fix u show "for_each f ys u = for_each g ys u"
      by (rule Cons.IH) (simp_all add: Cons.prems)
  qed
  with Cons.prems show ?case by simp
qed

lemma call_cong [fundef_cong]:
  "rt = rt' \<Longrightarrow> d = d' \<Longrightarrow> (\<And>x. x = Suc d' \<Longrightarrow> f x = g x) \<Longrightarrow> call rt d f = call rt' d' g"
  by (simp add: call_def)

lemma and_then_cong [fundef_cong]:
  "r = r' \<Longrightarrow> (\<And>x. r' = Inr x \<Longrightarrow> f x = g x) \<Longrightarrow> and_then r f = and_then r' g"
  by (auto simp: and_then_def split: sum.splits)

subsection \<open>Traversals of a tree\<close>

fun opt_nodes :: "ast option \<Rightarrow> ast list" where
  "opt_nodes None = []"
| "opt_nodes (Some n) = [n]"

text \<open>\<^verbatim>\<open>ast.iter_child_nodes\<close>.\<close>

fun iter_child_nodes :: "ast \<Rightarrow> ast list" where
  "iter_child_nodes (Name i) = [Other []]"
| "iter_child_nodes (Call f as ks) = f # as @ ks"
| "iter_child_nodes (Attribute v a) = [v, Other []]"
| "iter_child_nodes (Lambda a b) = [a, b]"
| "iter_child_nodes (Assign ts v) = ts @ [v]"
| "iter_child_nodes (Return v) = opt_nodes v"
| "iter_child_nodes (FunctionDef n a body decs ret tps) = a # body @ decs @ opt_nodes ret @ tps"
| "iter_child_nodes (AsyncFunctionDef n a body decs ret tps) = a # body @ decs @ opt_nodes ret @ tps"
| "iter_child_nodes (ClassDef n bases kws body decs tps) = bases @ kws @ body @ decs @ tps"
| "iter_child_nodes (Import names) = map (\<lambda>alias. Other []) names"
| "iter_child_nodes (ImportFrom m names) = map (\<lambda>alias. Other []) names"
| "iter_child_nodes (Arguments po as va ko kd kw ds) =
     po @ as @ opt_nodes va @ ko @ kd @ opt_nodes kw @ ds"
| "iter_child_nodes (Arg n ann) = opt_nodes ann"
| "iter_child_nodes (Other cs) = cs"

text \<open>The number of nodes of a tree: what the traversals descend on.\<close>

fun weight :: "ast \<Rightarrow> nat" where
  "weight (Name i) = 2"
| "weight (Call f as ks) = 1 + weight f + sum_list (map weight as) + sum_list (map weight ks)"
| "weight (Attribute v a) = 2 + weight v"
| "weight (Lambda a b) = 1 + weight a + weight b"
| "weight (Assign ts v) = 1 + sum_list (map weight ts) + weight v"
| "weight (Return v) = 1 + (case v of None \<Rightarrow> 0 | Some n \<Rightarrow> weight n)"
| "weight (FunctionDef n a body decs ret tps) =
     1 + weight a + sum_list (map weight body) + sum_list (map weight decs)
       + (case ret of None \<Rightarrow> 0 | Some n \<Rightarrow> weight n) + sum_list (map weight tps)"
| "weight (AsyncFunctionDef n a body decs ret tps) =
     1 + weight a + sum_list (map weight body) + sum_list (map weight decs)
       + (case ret of None \<Rightarrow> 0 | Some n \<Rightarrow> weight n) + sum_list (map weight tps)"
| "weight (ClassDef n bases kws body decs tps) =
     1 + sum_list (map weight bases) + sum_list (map weight kws) + sum_list (map weight body)
       + sum_list (map weight decs) + sum_list (map weight tps)"
| "weight (Import names) = 1 + length names"
| "weight (ImportFrom m names) = 1 + length names"
| "weight (Arguments po as va ko kd kw ds) =
     1 + sum_list (map weight po) + sum_list (map weight as)
       + (case va of None \<Rightarrow> 0 | Some n \<Rightarrow> weight n) + sum_list (map weight ko)
       + sum_list (map weight kd) + (case kw of None \<Rightarrow> 0 | Some n \<Rightarrow> weight n)
       + sum_list (map weight ds)"
| "weight (Arg n ann) = 1 + (case ann of None \<Rightarrow> 0 | Some n \<Rightarrow> weight n)"
| "weight (Other cs) = 1 + sum_list (map weight cs)"

lemma sum_list_const_one: "sum_list (map (\<lambda>x. Suc 0) xs) = length xs"
  by (induction xs) simp_all

lemma weight_children: "weight n = 1 + sum_list (map weight (iter_child_nodes n))"
  by (cases n) (auto simp: comp_def sum_list_const_one split: option.splits)

lemma weight_child: "c \<in> set (iter_child_nodes n) \<Longrightarrow> weight c < weight n"
proof -
  assume "c \<in> set (iter_child_nodes n)"
  then have "weight c \<le> sum_list (map weight (iter_child_nodes n))"
    by (simp add: member_le_sum_list)
  then show ?thesis by (simp add: weight_children [of n])
qed

text \<open>\<^verbatim>\<open>ast.walk\<close>: breadth first, from a queue that starts with the root.\<close>

function walk_queue :: "ast list \<Rightarrow> ast list" where
  "walk_queue [] = []"
| "walk_queue (n # todo) = n # walk_queue (todo @ iter_child_nodes n)"
  by pat_completeness auto
termination
  by (relation "measure (\<lambda>q. sum_list (map weight q))") (simp_all add: weight_children)

definition walk :: "ast \<Rightarrow> ast list" where
  "walk node = walk_queue [node]"

fun is_Name :: "ast \<Rightarrow> bool" where
  "is_Name (Name i) = True"
| "is_Name _ = False"

fun is_Call :: "ast \<Rightarrow> bool" where
  "is_Call (Call f as ks) = True"
| "is_Call _ = False"

fun is_FunctionDef :: "ast \<Rightarrow> bool" where
  "is_FunctionDef (FunctionDef n a body decs ret tps) = True"
| "is_FunctionDef _ = False"

fun is_AsyncFunctionDef :: "ast \<Rightarrow> bool" where
  "is_AsyncFunctionDef (AsyncFunctionDef n a body decs ret tps) = True"
| "is_AsyncFunctionDef _ = False"

fun is_ClassDef :: "ast \<Rightarrow> bool" where
  "is_ClassDef (ClassDef n bases kws body decs tps) = True"
| "is_ClassDef _ = False"

text \<open>The attributes \<^verbatim>\<open>id\<close> of a name, and \<^verbatim>\<open>name\<close> and \<^verbatim>\<open>body\<close> of a definition.\<close>

fun name_id :: "ast \<Rightarrow> string" where
  "name_id (Name i) = i"
| "name_id _ = []"

fun def_name :: "ast \<Rightarrow> string" where
  "def_name (FunctionDef n a body decs ret tps) = n"
| "def_name (AsyncFunctionDef n a body decs ret tps) = n"
| "def_name (ClassDef n bases kws body decs tps) = n"
| "def_name _ = []"

fun def_body :: "ast \<Rightarrow> ast list" where
  "def_body (FunctionDef n a body decs ret tps) = body"
| "def_body (AsyncFunctionDef n a body decs ret tps) = body"
| "def_body (ClassDef n bases kws body decs tps) = body"
| "def_body _ = []"

subsection \<open>Python values\<close>

text \<open>
  A Python \<^verbatim>\<open>set\<close> is a list without duplicates, a \<^verbatim>\<open>dict\<close> an association list with one
  entry for each key; both in insertion order. A dictionary iterates in that order; a set
  iterates in the order the interpreter gives it (\<open>set_order\<close>).
\<close>

definition set_add :: "'a \<Rightarrow> 'a list \<Rightarrow> 'a list" where
  "set_add x xs = (if x \<in> set xs then xs else xs @ [x])"

definition set_union :: "'a list \<Rightarrow> 'a list \<Rightarrow> 'a list" where
  "set_union xs ys = fold set_add ys xs"

fun dict_set :: "'k \<Rightarrow> 'v \<Rightarrow> ('k \<times> 'v) list \<Rightarrow> ('k \<times> 'v) list" where
  "dict_set k v [] = [(k, v)]"
| "dict_set k v ((k', v') # d) = (if k' = k then (k, v) # d else (k', v') # dict_set k v d)"

text \<open>Truth of an optional string: \<^verbatim>\<open>None\<close> and the empty string are false.\<close>

fun truthy :: "string option \<Rightarrow> bool" where
  "truthy None = False"
| "truthy (Some s) = (s \<noteq> [])"

text \<open>\<^verbatim>\<open>a or b\<close> for an optional string \<open>a\<close>.\<close>

definition or_else :: "string option \<Rightarrow> string \<Rightarrow> string" where
  "or_else a b = (if truthy a then the a else b)"

text \<open>\<^verbatim>\<open>s.endswith(suf)\<close>, \<^verbatim>\<open>f"{a}.{b}"\<close>, \<^verbatim>\<open>s.split(".")[0]\<close> and \<^verbatim>\<open>max(xs, key=len)\<close>, which
  returns the first of the longest strings in the order of \<open>xs\<close>.\<close>

definition endswith :: "string \<Rightarrow> string \<Rightarrow> bool" where
  "endswith s suf = (length suf \<le> length s \<and> drop (length s - length suf) s = suf)"

definition dotted :: "string \<Rightarrow> string \<Rightarrow> string" where
  "dotted a b = a @ ''.'' @ b"

definition before_dot :: "string \<Rightarrow> string" where
  "before_dot s = takeWhile (\<lambda>c. c \<noteq> CHR ''.'') s"

fun max_len_from :: "string \<Rightarrow> string list \<Rightarrow> string" where
  "max_len_from best [] = best"
| "max_len_from best (x # xs) = max_len_from (if length best < length x then x else best) xs"

subsection \<open>\<^verbatim>\<open>ConstraintEnv\<close>\<close>

record ConstraintEnv =
  points_to :: "(string \<times> string list) list"
  func_returns :: "(string \<times> string list) list"

definition new_ConstraintEnv :: ConstraintEnv where
  "new_ConstraintEnv = \<lparr>points_to = [], func_returns = []\<rparr>"

definition possible_functions :: "string \<Rightarrow> ConstraintEnv \<Rightarrow> string list" where
  "possible_functions var e = (case map_of (points_to e) var of None \<Rightarrow> [] | Some fs \<Rightarrow> fs)"

definition get_return_values :: "string \<Rightarrow> ConstraintEnv \<Rightarrow> string list" where
  "get_return_values func e = (case map_of (func_returns e) func of None \<Rightarrow> [] | Some fs \<Rightarrow> fs)"

definition add_points_to :: "string \<Rightarrow> string \<Rightarrow> ConstraintEnv \<Rightarrow> ConstraintEnv" where
  "add_points_to var func e =
     e\<lparr>points_to := dict_set var (set_add func (possible_functions var e)) (points_to e)\<rparr>"

definition add_return_value :: "string \<Rightarrow> string \<Rightarrow> ConstraintEnv \<Rightarrow> ConstraintEnv" where
  "add_return_value func returned_func e =
     e\<lparr>func_returns := dict_set func (set_add returned_func (get_return_values func e)) (func_returns e)\<rparr>"

subsection \<open>Name resolution\<close>

text \<open>The candidates are collected by iterating over the set of names.\<close>

definition resolve_name_to_function :: "'g runtime \<Rightarrow> string \<Rightarrow> string list \<Rightarrow> string option" where
  "resolve_name_to_function rt name function_names =
     (if name \<in> set function_names then Some name
      else (case filter (\<lambda>f. endswith f (''.'' @ name)) (set_order rt function_names) of
              [] \<Rightarrow> None
            | c # cs \<Rightarrow> Some (max_len_from c cs)))"

definition resolve_name_to_class :: "'g runtime \<Rightarrow> string \<Rightarrow> string list \<Rightarrow> string option" where
  "resolve_name_to_class rt name class_names =
     (if name \<in> set class_names then Some name
      else (case filter (\<lambda>c. endswith c (''.'' @ name)) (set_order rt class_names) of
              [] \<Rightarrow> None
            | c # cs \<Rightarrow> Some (max_len_from c cs)))"


subsection \<open>\<^verbatim>\<open>FunctionBodyAnalyzer\<close>\<close>

text \<open>
  The fields an analyzer is built with and never changes are one record; what its methods
  change is another: the call graph and the global environment, which all analyzers of
  one run share, and the analyzer's own environment \<^verbatim>\<open>self.env\<close>.
\<close>

record FunctionBodyAnalyzer =
  caller :: string
  function_names :: "string list"
  class_names :: "string list"
  class_methods :: "(string \<times> string list) list"
  import_modules :: "(string \<times> string) list"
  from_imports :: "(string \<times> string) list"
  scope :: string
  param_names :: "string list"

record 'g analysis =
  graph :: 'g
  global_env :: ConstraintEnv
  env :: ConstraintEnv

text \<open>\<^verbatim>\<open>self.graph.add_edge(src, dst)\<close>.\<close>

definition edge :: "'g runtime \<Rightarrow> string \<Rightarrow> string \<Rightarrow> 'g analysis \<Rightarrow> py_error + 'g analysis" where
  "edge rt src dst st = and_then (add_edge rt src dst (graph st)) (\<lambda>g. Inr (st\<lparr>graph := g\<rparr>))"

definition add_points_to_scoped :: "FunctionBodyAnalyzer \<Rightarrow> string \<Rightarrow> string \<Rightarrow> 'g analysis \<Rightarrow> 'g analysis" where
  "add_points_to_scoped a var func st =
     (if scope a = ''module'' then st\<lparr>global_env := add_points_to var func (global_env st)\<rparr>
      else st\<lparr>env := add_points_to var func (env st)\<rparr>)"

definition add_points_to_class :: "FunctionBodyAnalyzer \<Rightarrow> string \<Rightarrow> string \<Rightarrow> 'g analysis \<Rightarrow> 'g analysis" where
  "add_points_to_class a var cls st =
     (if scope a = ''module'' then st\<lparr>global_env := add_points_to var cls (global_env st)\<rparr>
      else st\<lparr>env := add_points_to var cls (env st)\<rparr>)"

definition union_from ::
  "'g runtime \<Rightarrow> FunctionBodyAnalyzer \<Rightarrow> string \<Rightarrow> string \<Rightarrow> 'g analysis \<Rightarrow> 'g analysis" where
  "union_from rt a target_var source_var st =
     fold (\<lambda>func. add_points_to_scoped a target_var func)
       (set_order rt (set_union (possible_functions source_var (env st))
                                (possible_functions source_var (global_env st)))) st"

text \<open>
  \<^verbatim>\<open>visit_Assign\<close>. The three branches of the source test the same condition, so the second
  and the third are never taken; they are kept as they stand.
\<close>

definition visit_Assign ::
  "'g runtime \<Rightarrow> FunctionBodyAnalyzer \<Rightarrow> ast list \<Rightarrow> ast \<Rightarrow> 'g analysis \<Rightarrow> 'g analysis" where
  "visit_Assign rt a targets val st =
     (if is_Name val then
        (let resolved = resolve_name_to_function rt (name_id val) (function_names a) in
         if truthy resolved then
           fold (\<lambda>target st. if is_Name target
                   then add_points_to_scoped a (name_id target) (the resolved) st else st) targets st
         else st)
      else if is_Name val then
        (let resolved = resolve_name_to_class rt (name_id val) (class_names a) in
         if truthy resolved then
           fold (\<lambda>target st. if is_Name target
                   then add_points_to_class a (name_id target) (the resolved) st else st) targets st
         else st)
      else if is_Name val then
        fold (\<lambda>target st. if is_Name target
                then union_from rt a (name_id target) (name_id val) st else st) targets st
      else st)"

fun visit_Return ::
  "'g runtime \<Rightarrow> FunctionBodyAnalyzer \<Rightarrow> ast option \<Rightarrow> 'g analysis \<Rightarrow> 'g analysis" where
  "visit_Return rt a (Some (Name i)) st =
     (let resolved = resolve_name_to_function rt i (function_names a) in
      if truthy resolved then
        st\<lparr>global_env := add_return_value (caller a) (the resolved) (global_env st)\<rparr>
      else
        fold (\<lambda>func st. st\<lparr>global_env := add_return_value (caller a) func (global_env st)\<rparr>)
          (set_order rt (possible_functions i (env st))) st)"
| "visit_Return rt a _ st = st"

text \<open>
  From here on the functions call one another to a depth that grows with the input, so
  each takes the depth \<open>d\<close> of its own frame and may raise.

  \<^verbatim>\<open>_resolve_call_target\<close> calls itself once for each level of a chained call
  \<^verbatim>\<open>f()()...()\<close>; \<^verbatim>\<open>list(return_vals)[0]\<close> is the first element of the set in iteration order.
\<close>

fun resolve_call_target ::
  "'g runtime \<Rightarrow> FunctionBodyAnalyzer \<Rightarrow> ConstraintEnv \<Rightarrow> nat \<Rightarrow> ast \<Rightarrow> py_error + string option" where
  "resolve_call_target rt a ge d (Call (Name i) as ks) =
     Inr (let resolved = resolve_name_to_function rt i (function_names a) in
          if truthy resolved then resolved
          else (case set_order rt (get_return_values (or_else resolved i) ge) of
                  [] \<Rightarrow> None
                | r # rs \<Rightarrow> Some r))"
| "resolve_call_target rt a ge d (Call (Call f as' ks') as ks) =
     call rt d (\<lambda>d1. resolve_call_target rt a ge d1 (Call f as' ks'))"
| "resolve_call_target rt a ge d _ = Inr None"

definition propagate_args_to_callee ::
  "'g runtime \<Rightarrow> FunctionBodyAnalyzer \<Rightarrow> nat \<Rightarrow> string \<Rightarrow> ast list \<Rightarrow> 'g analysis
     \<Rightarrow> py_error + 'g analysis" where
  "propagate_args_to_callee rt a d callee args st =
     for_each (\<lambda>arg st.
        if is_Name arg then
          (let resolved = resolve_name_to_function rt (name_id arg) (function_names a) in
           if truthy resolved then edge rt callee (the resolved) st
           else for_each (\<lambda>arg_func. edge rt callee arg_func)
                  (set_order rt (set_union (possible_functions (name_id arg) (env st))
                                           (possible_functions (name_id arg) (global_env st)))) st)
        else if is_Call arg then
          and_then (call rt d (\<lambda>d1. resolve_call_target rt a (global_env st) d1 arg))
            (\<lambda>target. if truthy target then edge rt callee (the target) st else Inr st)
        else Inr st) args st"

fun handle_method_call ::
  "'g runtime \<Rightarrow> FunctionBodyAnalyzer \<Rightarrow> ast \<Rightarrow> 'g analysis \<Rightarrow> py_error + 'g analysis" where
  "handle_method_call rt a (Call (Attribute (Name obj_name) method_name) args ks) st =
     for_each (\<lambda>cls st.
        (let method_key = dotted cls method_name in
         if method_key \<in> set (function_names a) then edge rt (caller a) method_key st else Inr st))
       (set_order rt (set_union (possible_functions obj_name (env st))
                                (possible_functions obj_name (global_env st)))) st"
| "handle_method_call rt a _ st = Inr st"

fun handle_call ::
  "'g runtime \<Rightarrow> FunctionBodyAnalyzer \<Rightarrow> nat \<Rightarrow> ast \<Rightarrow> 'g analysis \<Rightarrow> py_error + 'g analysis" where
  "handle_call rt a d (Call (Name name) args ks) st =
     (if name \<in> set (param_names a) \<or> name \<in> fst ` set (points_to (env st)) then
        for_each (\<lambda>func st.
            and_then (edge rt (caller a) func st)
              (\<lambda>st. call rt d (\<lambda>d1. propagate_args_to_callee rt a d1 func args st)))
          (set_order rt (set_union (possible_functions name (env st))
                                   (possible_functions name (global_env st)))) st
      else
        (let resolved = resolve_name_to_function rt name (function_names a) in
         if truthy resolved then
           and_then (edge rt (caller a) (the resolved) st)
             (\<lambda>st. call rt d (\<lambda>d1. propagate_args_to_callee rt a d1 (the resolved) args st))
         else
           (let cls = resolve_name_to_class rt name (class_names a) in
            if truthy cls then
              (let init_name = the cls @ ''.__init__'' in
               if init_name \<in> set (function_names a) then edge rt (caller a) init_name st
               else Inr st)
            else
              (case map_of (from_imports a) name of
                 Some imported_func \<Rightarrow> edge rt (caller a) imported_func st
               | None \<Rightarrow> Inr st))))"
| "handle_call rt a d (Call (Attribute v attr) args ks) st =
     call rt d (\<lambda>d1. handle_method_call rt a (Call (Attribute v attr) args ks) st)"
| "handle_call rt a d (Call (Call f as' ks') args ks) st =
     and_then (call rt d (\<lambda>d1. resolve_call_target rt a (global_env st) d1 (Call f as' ks')))
       (\<lambda>target.
          if truthy target then
            and_then (edge rt (caller a) (the target) st)
              (\<lambda>st. call rt d (\<lambda>d1. propagate_args_to_callee rt a d1 (the target) args st))
          else Inr st)"
| "handle_call rt a d _ st = Inr st"

definition visit_Lambda ::
  "'g runtime \<Rightarrow> FunctionBodyAnalyzer \<Rightarrow> nat \<Rightarrow> ast \<Rightarrow> 'g analysis \<Rightarrow> py_error + 'g analysis" where
  "visit_Lambda rt a d node st =
     for_each (\<lambda>child st. if is_Call child then call rt d (\<lambda>d1. handle_call rt a d1 child st) else Inr st)
       (walk node) st"

text \<open>
  \<^verbatim>\<open>NodeVisitor.visit\<close>, which the analyzer inherits: it calls the class's own \<^verbatim>\<open>visit_\<close>
  method where the analyzer defines one (\<^verbatim>\<open>visit_Call\<close> in turn calls \<^verbatim>\<open>_handle_call\<close>), and
  \<^verbatim>\<open>generic_visit\<close> for every other class, which calls \<^verbatim>\<open>visit\<close> on the child nodes in order.
  So each level of a tree takes two frames, and nothing in the module catches the
  \<^verbatim>\<open>RecursionError\<close> of a tree that is too deep.
\<close>

function (sequential) visit ::
  "'g runtime \<Rightarrow> FunctionBodyAnalyzer \<Rightarrow> nat \<Rightarrow> ast \<Rightarrow> 'g analysis \<Rightarrow> py_error + 'g analysis" where
  "visit rt a d (Assign targets val) st = call rt d (\<lambda>d1. Inr (visit_Assign rt a targets val st))"
| "visit rt a d (Return val) st = call rt d (\<lambda>d1. Inr (visit_Return rt a val st))"
| "visit rt a d (Call f as ks) st =
     call rt d (\<lambda>d1. call rt d1 (\<lambda>d2. handle_call rt a d2 (Call f as ks) st))"
| "visit rt a d (Lambda ar b) st = call rt d (\<lambda>d1. visit_Lambda rt a d1 (Lambda ar b) st)"
| "visit rt a d node st =
     call rt d (\<lambda>d1. for_each (\<lambda>child st. call rt d1 (\<lambda>d2. visit rt a d2 child st))
                       (iter_child_nodes node) st)"
  by pat_completeness auto
termination
  by (relation "measure (\<lambda>(rt, a, d, n, st). weight n)")
     (auto simp del: iter_child_nodes.simps weight.simps intro: weight_child)

subsection \<open>\<^verbatim>\<open>_collect_declarations\<close>\<close>

record declarations =
  decl_functions :: "string list"
  decl_classes :: "string list"
  decl_methods :: "(string \<times> string list) list"

definition full_name_of :: "string \<Rightarrow> string \<Rightarrow> string" where
  "full_name_of namespace name = (if namespace \<noteq> [] then dotted namespace name else name)"

definition add_method :: "string \<Rightarrow> string \<Rightarrow> declarations \<Rightarrow> declarations" where
  "add_method full_name name decls =
     decls\<lparr>decl_functions := set_add (dotted full_name name) (decl_functions decls),
       decl_methods := dict_set full_name
          (set_add name (case map_of (decl_methods decls) full_name of None \<Rightarrow> [] | Some ms \<Rightarrow> ms))
          (decl_methods decls)\<rparr>"

text \<open>
  \<^verbatim>\<open>collect_from_node\<close>, which calls itself on the statements of a body. For an
  \<^verbatim>\<open>AsyncFunctionDef\<close> the source builds a \<^verbatim>\<open>FunctionDef\<close> with the same name and body and calls
  itself on it: that case does what the first does, one frame deeper.
\<close>

function (sequential) collect_from_node ::
  "'g runtime \<Rightarrow> nat \<Rightarrow> ast \<Rightarrow> string \<Rightarrow> declarations \<Rightarrow> py_error + declarations" where
  "collect_from_node rt d (FunctionDef name args body decs ret tps) namespace decls =
     (let full_name = full_name_of namespace name;
          decls1 = decls\<lparr>decl_functions := set_add full_name (decl_functions decls)\<rparr>
      in for_each (\<lambda>child decls. call rt d (\<lambda>d1. collect_from_node rt d1 child full_name decls))
           body decls1)"
| "collect_from_node rt d (ClassDef name bases kws body decs tps) namespace decls =
     (let full_name = full_name_of namespace name;
          decls1 = decls\<lparr>decl_classes := set_add full_name (decl_classes decls),
                         decl_methods := dict_set full_name [] (decl_methods decls)\<rparr>
      in for_each (\<lambda>child decls.
             if is_FunctionDef child then Inr (add_method full_name (def_name child) decls)
             else call rt d (\<lambda>d1. collect_from_node rt d1 child full_name decls))
           body decls1)"
| "collect_from_node rt d (AsyncFunctionDef name args body decs ret tps) namespace decls =
     call rt d (\<lambda>d1.
       (let full_name = full_name_of namespace name;
            decls1 = decls\<lparr>decl_functions := set_add full_name (decl_functions decls)\<rparr>
        in for_each (\<lambda>child decls. call rt d1 (\<lambda>d2. collect_from_node rt d2 child full_name decls))
             body decls1))"
| "collect_from_node rt d node namespace decls = Inr decls"
  by pat_completeness auto
termination
  by (relation "measure (\<lambda>(rt, d, n, ns, decls). weight n)")
     (auto simp: member_le_sum_list le_imp_less_Suc trans_le_add1 trans_le_add2)

definition collect_declarations ::
  "'g runtime \<Rightarrow> nat \<Rightarrow> ast list \<Rightarrow> string \<Rightarrow> py_error + declarations" where
  "collect_declarations rt d tree module_name =
     for_each (\<lambda>node decls. call rt d (\<lambda>d1. collect_from_node rt d1 node module_name decls)) tree
       \<lparr>decl_functions = [], decl_classes = [], decl_methods = []\<rparr>"

subsection \<open>\<^verbatim>\<open>extract_call_graph_constraint\<close>\<close>

definition main_name :: string where
  "main_name = ''main''"

text \<open>The import mappings of the module level.\<close>

definition import_step ::
  "ast \<Rightarrow> (string \<times> string) list \<times> (string \<times> string) list
       \<Rightarrow> (string \<times> string) list \<times> (string \<times> string) list" where
  "import_step node maps =
     (case node of
        Import names \<Rightarrow>
          (fold (\<lambda>(name, asname) imps.
                   dict_set (or_else asname (before_dot name)) name imps)
             names (fst maps), snd maps)
      | ImportFrom module names \<Rightarrow>
          (let modname = or_else module [] in
           (fst maps,
            fold (\<lambda>(name, asname) froms.
                    if name = ''*'' then froms
                    else dict_set (or_else asname name)
                           (if modname \<noteq> [] then dotted modname name else name) froms)
              names (snd maps)))
      | _ \<Rightarrow> maps)"

text \<open>
  Pass 1, the statements of one function body: \<^verbatim>\<open>temp_env\<close> and \<^verbatim>\<open>global_env\<close> are the pair.
  The source has this loop body twice, for free functions and for methods. The pass walks
  each body with \<^verbatim>\<open>ast.walk\<close>, a loop over a queue: its depth does not grow with the input.
\<close>

fun pass1_stmt ::
  "'g runtime \<Rightarrow> string list \<Rightarrow> string \<Rightarrow> ast \<Rightarrow> ConstraintEnv \<times> ConstraintEnv
     \<Rightarrow> ConstraintEnv \<times> ConstraintEnv" where
  "pass1_stmt rt fnames caller_qual (Assign targets val) (tenv, genv) =
     (if is_Name val then
        (let targets' = filter is_Name targets;
             resolved = resolve_name_to_function rt (name_id val) fnames
         in if truthy resolved then
              (fold (\<lambda>t. add_points_to (name_id t) (the resolved)) targets' tenv, genv)
            else (tenv, genv))
      else (tenv, genv))"
| "pass1_stmt rt fnames caller_qual (Return (Some val)) (tenv, genv) =
     (if is_Name val then
        (let resolved = resolve_name_to_function rt (name_id val) fnames in
         if truthy resolved then
           (tenv, add_return_value caller_qual (the resolved) genv)
         else
           (tenv,
            fold (\<lambda>f. add_return_value caller_qual f)
              (set_order rt (possible_functions (name_id val) tenv)) genv))
      else (tenv, genv))"
| "pass1_stmt rt fnames caller_qual stmt envs = envs"

definition pass1_node ::
  "'g runtime \<Rightarrow> string list \<Rightarrow> ast \<Rightarrow> ConstraintEnv \<times> ConstraintEnv
     \<Rightarrow> ConstraintEnv \<times> ConstraintEnv" where
  "pass1_node rt fnames node envs =
     (if is_FunctionDef node then
        (let caller_qual = dotted main_name (def_name node) in
         fold (pass1_stmt rt fnames caller_qual) (walk node) envs)
      else if is_ClassDef node then
        (let clsq = dotted main_name (def_name node) in
         fold (\<lambda>b envs. if is_FunctionDef b then
                   (let caller_qual = dotted clsq (def_name b) in
                    fold (pass1_stmt rt fnames caller_qual) (walk b) envs)
                 else envs) (def_body node) envs)
      else envs)"

text \<open>
  The names of the positional parameters of a function definition, as the set
  \<^verbatim>\<open>set(a.arg for a in getattr(node.args, "args", []) if hasattr(a, "arg"))\<close>.
\<close>

fun arg_name :: "ast \<Rightarrow> string list \<Rightarrow> string list" where
  "arg_name (Arg n ann) names = set_add n names"
| "arg_name _ names = names"

fun params_of :: "ast \<Rightarrow> string list" where
  "params_of (FunctionDef n (Arguments po as va ko kd kw ds) body decs ret tps) = fold arg_name as []"
| "params_of _ = []"

text \<open>
  Pass 2 shares one call graph and one global environment among all analyzers; each
  analyzer starts with an empty environment of its own. \<open>d\<close> is the depth of the frame of
  \<^verbatim>\<open>extract_call_graph_constraint\<close>, from which every \<^verbatim>\<open>visit\<close> is called.
\<close>

definition new_analyzer ::
  "string \<Rightarrow> declarations \<Rightarrow> (string \<times> string) list \<Rightarrow> (string \<times> string) list
     \<Rightarrow> string \<Rightarrow> string list \<Rightarrow> FunctionBodyAnalyzer" where
  "new_analyzer caller_name decls imps froms scope_name params =
     \<lparr>caller = caller_name, function_names = decl_functions decls, class_names = decl_classes decls,
      class_methods = decl_methods decls, import_modules = imps, from_imports = froms,
      scope = scope_name, param_names = params\<rparr>"

definition run_analyzer ::
  "'g runtime \<Rightarrow> FunctionBodyAnalyzer \<Rightarrow> nat \<Rightarrow> ast \<Rightarrow> 'g \<times> ConstraintEnv
     \<Rightarrow> py_error + 'g \<times> ConstraintEnv" where
  "run_analyzer rt a d node shared =
     and_then
       (call rt d (\<lambda>d1. visit rt a d1 node
          \<lparr>graph = fst shared, global_env = snd shared, env = new_ConstraintEnv\<rparr>))
       (\<lambda>st. Inr (graph st, global_env st))"

definition pass2_node ::
  "'g runtime \<Rightarrow> declarations \<Rightarrow> (string \<times> string) list \<Rightarrow> (string \<times> string) list \<Rightarrow> nat \<Rightarrow> ast
     \<Rightarrow> 'g \<times> ConstraintEnv \<Rightarrow> py_error + 'g \<times> ConstraintEnv" where
  "pass2_node rt decls imps froms d node shared =
     (if is_FunctionDef node then
        (let caller_qual = dotted main_name (def_name node) in
         and_then (add_node rt caller_qual (fst shared))
           (\<lambda>g. let params = params_of node in
                 run_analyzer rt (new_analyzer caller_qual decls imps froms ''function'' params)
                   d node (g, snd shared)))
      else if is_ClassDef node then
        (let clsq = dotted main_name (def_name node) in
         for_each (\<lambda>b shared. if is_FunctionDef b then
                   (let caller_qual = dotted clsq (def_name b) in
                    and_then (add_node rt caller_qual (fst shared))
                      (\<lambda>g. run_analyzer rt (new_analyzer caller_qual decls imps froms ''function'' [])
                              d b (g, snd shared)))
                 else Inr shared) (def_body node) shared)
      else Inr shared)"

definition analyse_tree :: "'g runtime \<Rightarrow> nat \<Rightarrow> ast list \<Rightarrow> 'g \<Rightarrow> py_error + 'g" where
  "analyse_tree rt d tree graph0 =
     and_then (call rt d (\<lambda>d1. collect_declarations rt d1 tree main_name))
       (\<lambda>decls.
          let (imps, froms) = fold import_step tree ([], []);
              global_env0 = new_ConstraintEnv;
              temp_env0 = new_ConstraintEnv;
              (temp_env, global_env1) =
                 fold (pass1_node rt (decl_functions decls)) tree (temp_env0, global_env0);
              mod_analyzer = new_analyzer main_name decls imps froms ''module'' []
          in and_then
               (for_each (\<lambda>node st.
                    if \<not> (is_FunctionDef node \<or> is_ClassDef node \<or> is_AsyncFunctionDef node)
                    then call rt d (\<lambda>d1. visit rt mod_analyzer d1 node st) else Inr st) tree
                  \<lparr>graph = graph0, global_env = global_env1, env = new_ConstraintEnv\<rparr>)
               (\<lambda>st. and_then
                  (for_each (\<lambda>(alias, modname) g. add_node rt alias g) imps (graph st))
                  (\<lambda>graph1. and_then
                     (for_each (pass2_node rt decls imps froms d) tree (graph1, global_env st))
                     (\<lambda>shared. Inr (fst shared)))))"

text \<open>
  The function itself, running in a frame at depth \<open>d\<close>: only the \<^verbatim>\<open>SyntaxError\<close> of
  \<^verbatim>\<open>ast.parse\<close> is caught; any other exception of the parser, and every exception raised
  before or after the parse, leaves the function.
\<close>

definition extract_call_graph_constraint :: "'g runtime \<Rightarrow> nat \<Rightarrow> string \<Rightarrow> py_error + 'g" where
  "extract_call_graph_constraint rt d source_code =
     and_then (new_CallGraph rt)
       (\<lambda>graph0. and_then (add_node rt main_name graph0)
          (\<lambda>graph1. case ast_parse rt source_code of
                       Inl SyntaxError \<Rightarrow> Inr graph1
                     | Inl err \<Rightarrow> Inl err
                     | Inr tree \<Rightarrow> analyse_tree rt d tree graph1))"

subsection \<open>What is assumed of the call graph class\<close>




subsection \<open>Two examples\<close>

text \<open>
  Concrete runs. The interpreter of the examples iterates over a set in insertion order;
  its call graphs are a list of nodes and a list of edges, \<^verbatim>\<open>add_edge\<close> adding both ends of
  the edge to the nodes; no graph operation raises.
\<close>

definition list_graph_runtime ::
  "nat \<Rightarrow> nat \<Rightarrow> (string \<Rightarrow> py_error + ast list)
     \<Rightarrow> (string list \<times> (string \<times> string) list) runtime" where
  "list_graph_runtime limit room parse =
     \<lparr>recursion_limit = limit, headroom = room, set_order = (\<lambda>xs. xs), ast_parse = parse,
      new_CallGraph = Inr ([], []),
      add_node = (\<lambda>n g. Inr (set_add n (fst g), snd g)),
      add_edge = (\<lambda>s t g. Inr (set_add t (set_add s (fst g)), set_add (s, t) (snd g)))\<rparr>"



text \<open>
  The parser of the first example rejects one text with \<^verbatim>\<open>SyntaxError\<close> and returns,
  for every other, the tree of
  \<^verbatim>\<open>
  def f():
      return f
  f()
  \<close>
  The recursion limit is Python's default, 1000; helper calls get ten frames.
\<close>

definition demo_tree :: "ast list" where
  "demo_tree =
     [FunctionDef ''f'' (Arguments [] [] None [] [] None []) [Return (Some (Name ''f''))] [] None [],
      Other [Call (Name ''f'') [] []]]"

definition demo_parse :: "string \<Rightarrow> py_error + ast list" where
  "demo_parse s = (if s = ''def f(:'' then Inl SyntaxError else Inr demo_tree)"

definition demo_runtime :: "(string list \<times> (string \<times> string) list) runtime" where
  "demo_runtime = list_graph_runtime 1000 10 demo_parse"






subsection \<open>Results that keep a property and return when the stack has room\<close>










subsection \<open>The node \<^verbatim>\<open>main\<close> stays in the graph\<close>

lemma fold_keeps:
  assumes "\<And>x s. P s \<Longrightarrow> P (f x s)" and "P s"
  shows "P (fold f xs s)"
  using assms(2) by (induction xs arbitrary: s) (simp_all add: assms(1))

definition has_node :: "('g \<Rightarrow> string set) \<Rightarrow> string \<Rightarrow> 'g analysis \<Rightarrow> bool" where
  "has_node nodes_of n st = (n \<in> nodes_of (graph st))"




lemma add_points_to_scoped_keeps:
  "has_node nodes_of n st \<Longrightarrow> has_node nodes_of n (add_points_to_scoped a v f st)"
  by (simp add: has_node_def add_points_to_scoped_def)

lemma add_points_to_class_keeps:
  "has_node nodes_of n st \<Longrightarrow> has_node nodes_of n (add_points_to_class a v f st)"
  by (simp add: has_node_def add_points_to_class_def)

lemma union_from_keeps: "has_node nodes_of n st \<Longrightarrow> has_node nodes_of n (union_from rt a t s st)"
  unfolding union_from_def
  by (rule fold_keeps [where P = "has_node nodes_of n"]) (simp_all add: add_points_to_scoped_keeps)















































subsection \<open>The claim\<close>



text \<open>The first example runs: its graph has the edge from the module to \<^verbatim>\<open>f\<close>.\<close>

lemma demo_eval:
  "extract_call_graph_constraint demo_runtime 1 ''f()'' =
     Inr ([''main'', ''main.f''], [(''main'', ''main.f'')])"
  by code_simp


section \<open>Canonical names and the store graph of the points-to engine\<close>

text \<open>
  Modelled from the spec: the packages \<^verbatim>\<open>pyflow.analysis.storegraph\<close> (\<^verbatim>\<open>canonicalobjects\<close>,
  \<^verbatim>\<open>storegraph\<close>) and \<^verbatim>\<open>pyflow.analysis.ipa.model\<close> hold no module among the sources but their
  \<^verbatim>\<open>__init__.py\<close>; the canonicalizer and the slot lookup below follow sections 3, 4.1, 4.2 and
  9 of the specification. An instance is an opaque handle into an arena (section 9): the
  arena lists the descriptors in the order of allocation, and an interning map from
  descriptors to handles is the cache.

  An abstract object is described by its allocation site or constant, its qualifier and,
  when it is native, the context that owns it; a field key by its kind tag and the object
  that names the field.
\<close>

datatype qualifier = Native | Down

record descriptor =
  site :: string
  qualifier_of :: qualifier
  owning_context :: "nat option"

type_synonym object_handle = nat
type_synonym field_handle = nat
type_synonym slot_handle = nat
type_synonym context_id = nat

record Canonicalizer =
  object_arena :: "descriptor list"
  object_cache :: "descriptor \<rightharpoonup> object_handle"
  field_arena :: "(string \<times> object_handle) list"
  field_cache :: "string \<times> object_handle \<rightharpoonup> field_handle"

text \<open>
  Modelled from the spec: \<^verbatim>\<open>canonicalObject(descriptor)\<close> of section 4.1, which "must return the
  previously issued instance for an equal descriptor, else allocate and cache a new one".
\<close>

definition canonicalObject :: "descriptor \<Rightarrow> Canonicalizer \<Rightarrow> object_handle \<times> Canonicalizer" where
  "canonicalObject d c =
     (case object_cache c d of
        Some h \<Rightarrow> (h, c)
      | None \<Rightarrow>
          (length (object_arena c),
           c\<lparr>object_arena := object_arena c @ [d],
             object_cache := (object_cache c)(d \<mapsto> length (object_arena c))\<rparr>))"

text \<open>Modelled from the spec: \<^verbatim>\<open>canonicalField(kind, identity)\<close> of section 4.1, the same way.\<close>

definition canonicalField ::
  "string \<Rightarrow> object_handle \<Rightarrow> Canonicalizer \<Rightarrow> field_handle \<times> Canonicalizer" where
  "canonicalField field_kind ident c =
     (case field_cache c (field_kind, ident) of
        Some h \<Rightarrow> (h, c)
      | None \<Rightarrow>
          (length (field_arena c),
           c\<lparr>field_arena := field_arena c @ [(field_kind, ident)],
             field_cache := (field_cache c)((field_kind, ident) \<mapsto> length (field_arena c))\<rparr>))"

text \<open>
  Modelled from the spec: a slot (section 3) has a value set, the flag "may be
  uninitialized", the object or context it is attached to, and a kind; it is found by
  the triple of its context, its owner and its field key (section 4.2).
\<close>

datatype slot_owner = OwnerObject object_handle | OwnerContext context_id

datatype slot_kind = LocalSlot | FieldSlot | TypeSlot | LengthSlot

record Slot =
  slot_values :: "object_handle set"
  mayBeUninitialized :: bool
  slot_owner_of :: slot_owner
  slot_kind_of :: slot_kind

type_synonym slot_key = "context_id \<times> slot_owner \<times> field_handle"

record StoreGraph =
  slot_arena :: "Slot list"
  slot_cache :: "slot_key \<rightharpoonup> slot_handle"

text \<open>
  Modelled from the spec: \<^verbatim>\<open>slot(context, owner, fieldKey, kind)\<close> of section 4.2, "get-or-create,
  keyed by the canonicalized triple". A new slot has no value and may be uninitialized.
\<close>

definition slot :: "context_id \<Rightarrow> slot_owner \<Rightarrow> field_handle \<Rightarrow> slot_kind \<Rightarrow> StoreGraph
                      \<Rightarrow> slot_handle \<times> StoreGraph" where
  "slot ctx own fk knd sg =
     (case slot_cache sg (ctx, own, fk) of
        Some h \<Rightarrow> (h, sg)
      | None \<Rightarrow>
          (length (slot_arena sg),
           sg\<lparr>slot_arena := slot_arena sg @
                  [\<lparr>slot_values = {}, mayBeUninitialized = True,
                    slot_owner_of = own, slot_kind_of = knd\<rparr>],
              slot_cache := (slot_cache sg)((ctx, own, fk) \<mapsto> length (slot_arena sg))\<rparr>))"

text \<open>
  Modelled from the spec: \<^verbatim>\<open>Slot.addValues(set)\<close>, which "unions into values and returns whether
  anything changed", and \<^verbatim>\<open>Slot.clearUninitialized()\<close>, "a one-way transition" (section 4.2).
  A handle that names no slot leaves the store as it is.
\<close>

definition addValues :: "slot_handle \<Rightarrow> object_handle set \<Rightarrow> StoreGraph \<Rightarrow> bool \<times> StoreGraph" where
  "addValues h vs sg =
     (if h < length (slot_arena sg) then
        (\<not> vs \<subseteq> slot_values (slot_arena sg ! h),
         sg\<lparr>slot_arena := (slot_arena sg)
              [h := (slot_arena sg ! h)\<lparr>slot_values := slot_values (slot_arena sg ! h) \<union> vs\<rparr>]\<rparr>)
      else (False, sg))"

definition clearUninitialized :: "slot_handle \<Rightarrow> StoreGraph \<Rightarrow> StoreGraph" where
  "clearUninitialized h sg =
     (if h < length (slot_arena sg) then
        sg\<lparr>slot_arena := (slot_arena sg)[h := (slot_arena sg ! h)\<lparr>mayBeUninitialized := False\<rparr>]\<rparr>
      else sg)"

text \<open>
  Modelled from the spec: one analysis run owns one canonicalizer and one store graph
  (sections 6 and 9), and uses them through a finite sequence of the operations above.
\<close>

record Registry =
  canonicalizer :: Canonicalizer
  store_graph :: StoreGraph

definition new_Registry :: Registry where
  "new_Registry =
     \<lparr>canonicalizer = \<lparr>object_arena = [], object_cache = Map.empty,
                        field_arena = [], field_cache = Map.empty\<rparr>,
      store_graph = \<lparr>slot_arena = [], slot_cache = Map.empty\<rparr>\<rparr>"

definition reg_object :: "descriptor \<Rightarrow> Registry \<Rightarrow> object_handle \<times> Registry" where
  "reg_object d r =
     (let (h, c) = canonicalObject d (canonicalizer r) in (h, r\<lparr>canonicalizer := c\<rparr>))"

definition reg_field :: "string \<Rightarrow> object_handle \<Rightarrow> Registry \<Rightarrow> field_handle \<times> Registry" where
  "reg_field field_kind ident r =
     (let (h, c) = canonicalField field_kind ident (canonicalizer r) in (h, r\<lparr>canonicalizer := c\<rparr>))"

definition reg_slot ::
  "context_id \<Rightarrow> slot_owner \<Rightarrow> field_handle \<Rightarrow> slot_kind \<Rightarrow> Registry \<Rightarrow> slot_handle \<times> Registry" where
  "reg_slot ctx own fk knd r =
     (let (h, sg) = slot ctx own fk knd (store_graph r) in (h, r\<lparr>store_graph := sg\<rparr>))"

text \<open>
  Modelled from the spec: the field lookup of a context, as \<^verbatim>\<open>tests/ipa/test_flow.py\<close> uses it
  (\<^verbatim>\<open>context.field(o, fieldtype, n.obj())\<close>): the object, the name object and the field key are
  canonicalized, and the slot is looked up by the triple.
\<close>

definition field_lookup ::
  "context_id \<Rightarrow> descriptor \<Rightarrow> string \<Rightarrow> descriptor \<Rightarrow> Registry \<Rightarrow> slot_handle \<times> Registry" where
  "field_lookup ctx obj field_kind name_obj r =
     (let (ob, r1) = reg_object obj r;
          (n, r2) = reg_object name_obj r1;
          (fk, r3) = reg_field field_kind n r2
      in reg_slot ctx (OwnerObject ob) fk FieldSlot r3)"

datatype registry_call =
    CanonicalObject descriptor
  | CanonicalField string object_handle
  | GetSlot context_id slot_owner field_handle slot_kind
  | FieldLookup context_id descriptor string descriptor
  | AddValues slot_handle "object_handle set"
  | ClearUninitialized slot_handle

fun registry_apply :: "registry_call \<Rightarrow> Registry \<Rightarrow> Registry" where
  "registry_apply (CanonicalObject d) r = snd (reg_object d r)"
| "registry_apply (CanonicalField k i) r = snd (reg_field k i r)"
| "registry_apply (GetSlot ctx own fk knd) r = snd (reg_slot ctx own fk knd r)"
| "registry_apply (FieldLookup ctx obj k n) r = snd (field_lookup ctx obj k n r)"
| "registry_apply (AddValues h vs) r = r\<lparr>store_graph := snd (addValues h vs (store_graph r))\<rparr>"
| "registry_apply (ClearUninitialized h) r = r\<lparr>store_graph := clearUninitialized h (store_graph r)\<rparr>"

fun registry_run :: "registry_call list \<Rightarrow> Registry \<Rightarrow> Registry" where
  "registry_run [] r = r"
| "registry_run (c # cs) r = registry_run cs (registry_apply c r)"

subsection \<open>Lookups return the instance issued first\<close>

lemma reg_object_hit:
  "object_cache (canonicalizer r) d = Some h \<Longrightarrow> reg_object d r = (h, r)"
  by (simp add: reg_object_def canonicalObject_def)

lemma reg_field_hit:
  "field_cache (canonicalizer r) (k, i) = Some h \<Longrightarrow> reg_field k i r = (h, r)"
  by (simp add: reg_field_def canonicalField_def)

lemma reg_slot_hit:
  "slot_cache (store_graph r) (ctx, own, fk) = Some h \<Longrightarrow> reg_slot ctx own fk knd r = (h, r)"
  by (simp add: reg_slot_def slot_def)

lemma reg_object_after:
  "object_cache (canonicalizer (snd (reg_object d r))) d = Some (fst (reg_object d r))"
  by (simp add: reg_object_def canonicalObject_def split: option.splits)

lemma reg_field_after:
  "field_cache (canonicalizer (snd (reg_field k i r))) (k, i) = Some (fst (reg_field k i r))"
  by (simp add: reg_field_def canonicalField_def split: option.splits)

lemma reg_slot_after:
  "slot_cache (store_graph (snd (reg_slot ctx own fk knd r))) (ctx, own, fk)
     = Some (fst (reg_slot ctx own fk knd r))"
  by (simp add: reg_slot_def slot_def split: option.splits)

text \<open>What a registry keeps of another: every cache entry.\<close>

definition extends :: "Registry \<Rightarrow> Registry \<Rightarrow> bool" where
  "extends r r' \<longleftrightarrow>
     (\<forall>d h. object_cache (canonicalizer r) d = Some h \<longrightarrow> object_cache (canonicalizer r') d = Some h)
   \<and> (\<forall>k h. field_cache (canonicalizer r) k = Some h \<longrightarrow> field_cache (canonicalizer r') k = Some h)
   \<and> (\<forall>k h. slot_cache (store_graph r) k = Some h \<longrightarrow> slot_cache (store_graph r') k = Some h)"

lemma extends_refl: "extends r r"
  by (simp add: extends_def)

lemma extends_trans: "extends r r' \<Longrightarrow> extends r' r'' \<Longrightarrow> extends r r''"
  by (simp add: extends_def)

lemma extends_reg_object: "extends r (snd (reg_object d r))"
  by (auto simp: extends_def reg_object_def canonicalObject_def split: option.splits)

lemma extends_reg_field: "extends r (snd (reg_field k i r))"
  by (auto simp: extends_def reg_field_def canonicalField_def split: option.splits)

lemma extends_reg_slot: "extends r (snd (reg_slot ctx own fk knd r))"
  by (auto simp: extends_def reg_slot_def slot_def split: option.splits)

lemma extends_field_lookup: "extends r (snd (field_lookup ctx obj k n r))"
proof -
  let ?r1 = "snd (reg_object obj r)"
  let ?r2 = "snd (reg_object n ?r1)"
  let ?r3 = "snd (reg_field k (fst (reg_object n ?r1)) ?r2)"
  have "snd (field_lookup ctx obj k n r)
      = snd (reg_slot ctx (OwnerObject (fst (reg_object obj r))) (fst (reg_field k (fst (reg_object n ?r1)) ?r2)) FieldSlot ?r3)"
    by (simp add: field_lookup_def split_beta Let_def)
  moreover have "extends r ?r1" by (rule extends_reg_object)
  moreover have "extends ?r1 ?r2" by (rule extends_reg_object)
  moreover have "extends ?r2 ?r3" by (rule extends_reg_field)
  moreover have "extends ?r3 (snd (reg_slot ctx (OwnerObject (fst (reg_object obj r))) (fst (reg_field k (fst (reg_object n ?r1)) ?r2)) FieldSlot ?r3))"
    by (rule extends_reg_slot)
  ultimately show ?thesis using extends_trans by metis
qed

lemma extends_addValues: "extends r (r\<lparr>store_graph := snd (addValues h vs (store_graph r))\<rparr>)"
  by (simp add: extends_def addValues_def)

lemma extends_clear: "extends r (r\<lparr>store_graph := clearUninitialized h (store_graph r)\<rparr>)"
  by (simp add: extends_def clearUninitialized_def)

lemma extends_apply: "extends r (registry_apply c r)"
  by (cases c) (simp_all add: extends_reg_object extends_reg_field extends_reg_slot
      extends_field_lookup extends_addValues extends_clear)

lemma extends_run: "extends r (registry_run cs r)"
proof (induction cs arbitrary: r)
  case Nil
  show ?case by (simp add: extends_refl)
next
  case (Cons c cs)
  have "extends r (registry_apply c r)" by (rule extends_apply)
  moreover have "extends (registry_apply c r) (registry_run cs (registry_apply c r))" by (rule Cons)
  ultimately show ?case using extends_trans by simp
qed


text \<open>What every registry built by the operations satisfies: a cached handle names the
  arena entry that was allocated for its key.\<close>

definition reg_inv :: "Registry \<Rightarrow> bool" where
  "reg_inv r \<longleftrightarrow>
     (\<forall>d h. object_cache (canonicalizer r) d = Some h \<longrightarrow>
        h < length (object_arena (canonicalizer r)) \<and> object_arena (canonicalizer r) ! h = d)
   \<and> (\<forall>k h. field_cache (canonicalizer r) k = Some h \<longrightarrow>
        h < length (field_arena (canonicalizer r)) \<and> field_arena (canonicalizer r) ! h = k)
   \<and> (\<forall>k h. slot_cache (store_graph r) k = Some h \<longrightarrow>
        h < length (slot_arena (store_graph r))
        \<and> slot_owner_of (slot_arena (store_graph r) ! h) = fst (snd k))"

lemma reg_inv_new: "reg_inv new_Registry"
  by (simp add: reg_inv_def new_Registry_def)

lemma reg_inv_object: "reg_inv r \<Longrightarrow> reg_inv (snd (reg_object d r))"
  unfolding reg_inv_def reg_object_def canonicalObject_def
  by (auto simp: nth_append less_Suc_eq split: option.splits)

lemma reg_inv_field: "reg_inv r \<Longrightarrow> reg_inv (snd (reg_field k i r))"
  unfolding reg_inv_def reg_field_def canonicalField_def
  by (auto simp: nth_append less_Suc_eq split: option.splits)

lemma reg_inv_slot: "reg_inv r \<Longrightarrow> reg_inv (snd (reg_slot ctx own fk knd r))"
  unfolding reg_inv_def reg_slot_def slot_def
  by (auto simp: nth_append less_Suc_eq split: option.splits)

lemma reg_inv_field_lookup: "reg_inv r \<Longrightarrow> reg_inv (snd (field_lookup ctx obj k n r))"
  by (simp add: field_lookup_def split_beta Let_def reg_inv_object reg_inv_field reg_inv_slot)

lemma reg_inv_addValues: "reg_inv r \<Longrightarrow> reg_inv (r\<lparr>store_graph := snd (addValues h vs (store_graph r))\<rparr>)"
  unfolding reg_inv_def addValues_def
  by (auto simp: nth_list_update)

lemma reg_inv_clear: "reg_inv r \<Longrightarrow> reg_inv (r\<lparr>store_graph := clearUninitialized h (store_graph r)\<rparr>)"
  unfolding reg_inv_def clearUninitialized_def
  by (auto simp: nth_list_update)

lemma reg_inv_apply: "reg_inv r \<Longrightarrow> reg_inv (registry_apply c r)"
  by (cases c) (simp_all add: reg_inv_object reg_inv_field reg_inv_slot
      reg_inv_field_lookup reg_inv_addValues reg_inv_clear)

lemma reg_inv_run: "reg_inv r \<Longrightarrow> reg_inv (registry_run cs r)"
  by (induction cs arbitrary: r) (simp_all add: reg_inv_apply)

lemma field_lookup_parts:
  "field_lookup ctx obj k n r =
     reg_slot ctx (OwnerObject (fst (reg_object obj r)))
       (fst (reg_field k (fst (reg_object n (snd (reg_object obj r))))
               (snd (reg_object n (snd (reg_object obj r))))))
       FieldSlot
       (snd (reg_field k (fst (reg_object n (snd (reg_object obj r))))
               (snd (reg_object n (snd (reg_object obj r))))))"
  by (simp add: field_lookup_def split_beta Let_def)

lemma field_lookup_hit:
  assumes "object_cache (canonicalizer r) obj = Some ob"
    and "object_cache (canonicalizer r) n = Some nh"
    and "field_cache (canonicalizer r) (k, nh) = Some fk"
    and "slot_cache (store_graph r) (ctx, OwnerObject ob, fk) = Some sh"
  shows "field_lookup ctx obj k n r = (sh, r)"
  by (simp add: field_lookup_parts reg_object_hit [OF assms(1)] reg_object_hit [OF assms(2)]
      reg_field_hit [OF assms(3)] reg_slot_hit [OF assms(4)])

lemma field_lookup_after:
  "\<exists>ob nh fk.
     object_cache (canonicalizer (snd (field_lookup ctx obj k n r))) obj = Some ob
   \<and> object_cache (canonicalizer (snd (field_lookup ctx obj k n r))) n = Some nh
   \<and> field_cache (canonicalizer (snd (field_lookup ctx obj k n r))) (k, nh) = Some fk
   \<and> slot_cache (store_graph (snd (field_lookup ctx obj k n r))) (ctx, OwnerObject ob, fk)
        = Some (fst (field_lookup ctx obj k n r))"
proof -
  let ?r1 = "snd (reg_object obj r)" and ?ob = "fst (reg_object obj r)"
  let ?r2 = "snd (reg_object n ?r1)" and ?nh = "fst (reg_object n ?r1)"
  let ?r3 = "snd (reg_field k ?nh ?r2)" and ?fk = "fst (reg_field k ?nh ?r2)"
  let ?r4 = "snd (reg_slot ctx (OwnerObject ?ob) ?fk FieldSlot ?r3)"
  let ?sh = "fst (reg_slot ctx (OwnerObject ?ob) ?fk FieldSlot ?r3)"
  have e: "field_lookup ctx obj k n r = (?sh, ?r4)" by (simp add: field_lookup_parts)
  have x12: "extends ?r1 ?r2" by (rule extends_reg_object)
  have x23: "extends ?r2 ?r3" by (rule extends_reg_field)
  have x34: "extends ?r3 ?r4" by (rule extends_reg_slot)
  have x14: "extends ?r1 ?r4" by (rule extends_trans [OF x12 extends_trans [OF x23 x34]])
  have x24: "extends ?r2 ?r4" by (rule extends_trans [OF x23 x34])
  have a: "object_cache (canonicalizer ?r1) obj = Some ?ob" by (rule reg_object_after)
  have b: "object_cache (canonicalizer ?r2) n = Some ?nh" by (rule reg_object_after)
  have c: "field_cache (canonicalizer ?r3) (k, ?nh) = Some ?fk" by (rule reg_field_after)
  have d: "slot_cache (store_graph ?r4) (ctx, OwnerObject ?ob, ?fk) = Some ?sh" by (rule reg_slot_after)
  have a4: "object_cache (canonicalizer ?r4) obj = Some ?ob" using x14 a unfolding extends_def by blast
  have b4: "object_cache (canonicalizer ?r4) n = Some ?nh" using x24 b unfolding extends_def by blast
  have c4: "field_cache (canonicalizer ?r4) (k, ?nh) = Some ?fk" using x34 c unfolding extends_def by blast
  show ?thesis unfolding e snd_conv fst_conv using a4 b4 c4 d by blast
qed

lemma field_lookup_stable:
  "fst (field_lookup ctx obj k n (registry_run ds (snd (field_lookup ctx obj k n r))))
     = fst (field_lookup ctx obj k n r)
   \<and> snd (field_lookup ctx obj k n (registry_run ds (snd (field_lookup ctx obj k n r))))
     = registry_run ds (snd (field_lookup ctx obj k n r))"
proof -
  let ?r' = "snd (field_lookup ctx obj k n r)"
  obtain ob nh fk where f:
    "object_cache (canonicalizer ?r') obj = Some ob"
    "object_cache (canonicalizer ?r') n = Some nh"
    "field_cache (canonicalizer ?r') (k, nh) = Some fk"
    "slot_cache (store_graph ?r') (ctx, OwnerObject ob, fk) = Some (fst (field_lookup ctx obj k n r))"
    using field_lookup_after by blast
  have x: "extends ?r' (registry_run ds ?r')" by (rule extends_run)
  have g:
    "object_cache (canonicalizer (registry_run ds ?r')) obj = Some ob"
    "object_cache (canonicalizer (registry_run ds ?r')) n = Some nh"
    "field_cache (canonicalizer (registry_run ds ?r')) (k, nh) = Some fk"
    "slot_cache (store_graph (registry_run ds ?r')) (ctx, OwnerObject ob, fk) = Some (fst (field_lookup ctx obj k n r))"
    using x f unfolding extends_def by blast+
  show ?thesis by (simp add: field_lookup_hit [OF g])
qed


lemma object_stable:
  assumes "reg_inv r"
  shows "reg_object d (registry_run ds (snd (reg_object d r)))
           = (fst (reg_object d r), registry_run ds (snd (reg_object d r)))"
    and "object_arena (canonicalizer (registry_run ds (snd (reg_object d r)))) ! fst (reg_object d r) = d"
proof -
  let ?r' = "registry_run ds (snd (reg_object d r))"
  have "extends (snd (reg_object d r)) ?r'" by (rule extends_run)
  then have c: "object_cache (canonicalizer ?r') d = Some (fst (reg_object d r))"
    using reg_object_after [of d r] unfolding extends_def by blast
  show "reg_object d ?r' = (fst (reg_object d r), ?r')" by (rule reg_object_hit [OF c])
  have "reg_inv ?r'" by (rule reg_inv_run [OF reg_inv_object [OF assms]])
  then show "object_arena (canonicalizer ?r') ! fst (reg_object d r) = d"
    using c unfolding reg_inv_def by blast
qed

lemma field_stable:
  assumes "reg_inv r"
  shows "reg_field k i (registry_run ds (snd (reg_field k i r)))
           = (fst (reg_field k i r), registry_run ds (snd (reg_field k i r)))"
    and "field_arena (canonicalizer (registry_run ds (snd (reg_field k i r)))) ! fst (reg_field k i r) = (k, i)"
proof -
  let ?r' = "registry_run ds (snd (reg_field k i r))"
  have "extends (snd (reg_field k i r)) ?r'" by (rule extends_run)
  then have c: "field_cache (canonicalizer ?r') (k, i) = Some (fst (reg_field k i r))"
    using reg_field_after [of k i r] unfolding extends_def by blast
  show "reg_field k i ?r' = (fst (reg_field k i r), ?r')" by (rule reg_field_hit [OF c])
  have "reg_inv ?r'" by (rule reg_inv_run [OF reg_inv_field [OF assms]])
  then show "field_arena (canonicalizer ?r') ! fst (reg_field k i r) = (k, i)"
    using c unfolding reg_inv_def by blast
qed

lemma slot_stable:
  assumes "reg_inv r"
  shows "reg_slot ctx own fk knd' (registry_run ds (snd (reg_slot ctx own fk knd r)))
           = (fst (reg_slot ctx own fk knd r), registry_run ds (snd (reg_slot ctx own fk knd r)))"
    and "slot_owner_of (slot_arena (store_graph (registry_run ds (snd (reg_slot ctx own fk knd r))))
           ! fst (reg_slot ctx own fk knd r)) = own"
proof -
  let ?r' = "registry_run ds (snd (reg_slot ctx own fk knd r))"
  have "extends (snd (reg_slot ctx own fk knd r)) ?r'" by (rule extends_run)
  then have c: "slot_cache (store_graph ?r') (ctx, own, fk) = Some (fst (reg_slot ctx own fk knd r))"
    using reg_slot_after [of ctx own fk knd r] unfolding extends_def by blast
  show "reg_slot ctx own fk knd' ?r' = (fst (reg_slot ctx own fk knd r), ?r')"
    by (rule reg_slot_hit [OF c])
  have "reg_inv ?r'" by (rule reg_inv_run [OF reg_inv_slot [OF assms]])
  then have "slot_owner_of (slot_arena (store_graph ?r') ! fst (reg_slot ctx own fk knd r))
               = fst (snd (ctx, own, fk))"
    using c unfolding reg_inv_def by blast
  then show "slot_owner_of (slot_arena (store_graph ?r') ! fst (reg_slot ctx own fk knd r)) = own"
    by simp
qed

text \<open>
  Claim C7. In every registry \<open>r\<close> that a finite sequence \<open>cs\<close> of operations builds from the
  empty one, and whatever operations \<open>ds\<close> come between the first call and a later one
  (none, for an immediate second call):
  \<^item> \<^verbatim>\<open>canonicalObject(d)\<close> returns the handle it returned the first time and changes
    nothing, and that handle names the arena entry of \<open>d\<close>;
  \<^item> \<^verbatim>\<open>canonicalField(kind, identity)\<close> likewise;
  \<^item> the slot lookup by the triple of context, owner and field key returns the same slot and
    changes nothing, whatever kind the later call passes, and the slot is attached to that
    owner;
  \<^item> the field lookup of a context, which canonicalizes the object, the name object and the
    field key before it looks the slot up, returns the same slot for equal descriptors.
\<close>

theorem canonical_lookups_stable:
  "let r = registry_run cs new_Registry;
       ro = registry_run ds (snd (reg_object d r));
       rf = registry_run ds (snd (reg_field k i r));
       rs = registry_run ds (snd (reg_slot ctx own fk knd r));
       rl = registry_run ds (snd (field_lookup ctx obj fkind name_obj r))
   in reg_object d ro = (fst (reg_object d r), ro)
    \<and> object_arena (canonicalizer ro) ! fst (reg_object d r) = d
    \<and> reg_field k i rf = (fst (reg_field k i r), rf)
    \<and> field_arena (canonicalizer rf) ! fst (reg_field k i r) = (k, i)
    \<and> reg_slot ctx own fk knd' rs = (fst (reg_slot ctx own fk knd r), rs)
    \<and> slot_owner_of (slot_arena (store_graph rs) ! fst (reg_slot ctx own fk knd r)) = own
    \<and> field_lookup ctx obj fkind name_obj rl = (fst (field_lookup ctx obj fkind name_obj r), rl)"
proof -
  have inv: "reg_inv (registry_run cs new_Registry)" by (rule reg_inv_run [OF reg_inv_new])
  have l: "field_lookup ctx obj fkind name_obj
             (registry_run ds (snd (field_lookup ctx obj fkind name_obj (registry_run cs new_Registry))))
           = (fst (field_lookup ctx obj fkind name_obj (registry_run cs new_Registry)),
              registry_run ds (snd (field_lookup ctx obj fkind name_obj (registry_run cs new_Registry))))"
    using field_lookup_stable [of ctx obj fkind name_obj ds "registry_run cs new_Registry"]
    by (simp add: prod_eq_iff)
  show ?thesis
    unfolding Let_def
    by (intro conjI object_stable [OF inv] field_stable [OF inv] slot_stable [OF inv] l)
qed

text \<open>The objects of \<^verbatim>\<open>testStore\<close>: the constants \<^verbatim>\<open>"obj"\<close> and \<^verbatim>\<open>"name"\<close>.\<close>

definition demo_obj :: descriptor where
  "demo_obj = \<lparr>site = ''obj'', qualifier_of = Native, owning_context = None\<rparr>"

definition demo_name :: descriptor where
  "demo_name = \<lparr>site = ''name'', qualifier_of = Native, owning_context = None\<rparr>"

text \<open>
  Claim C7 at the test's lookup: after \<^verbatim>\<open>context.field(obj, "Attribute", name)\<close>, a lookup of
  the object and a change of the slot's values, the name object is still handle 1 and the
  field's slot still slot 0.
\<close>

theorem canonical_lookups_stable_witness:
  "reg_object demo_name
     (registry_run [CanonicalObject demo_obj, AddValues 0 {1}]
        (snd (reg_object demo_name (registry_run [FieldLookup 0 demo_obj ''Attribute'' demo_name] new_Registry))))
     = (1, registry_run [CanonicalObject demo_obj, AddValues 0 {1}]
        (snd (reg_object demo_name (registry_run [FieldLookup 0 demo_obj ''Attribute'' demo_name] new_Registry))))
   \<and> fst (field_lookup 0 demo_obj ''Attribute'' demo_name
        (registry_run [CanonicalObject demo_obj, AddValues 0 {1}]
          (snd (field_lookup 0 demo_obj ''Attribute'' demo_name
             (registry_run [FieldLookup 0 demo_obj ''Attribute'' demo_name] new_Registry))))) = 0"
proof -
  let ?r = "registry_run [FieldLookup 0 demo_obj ''Attribute'' demo_name] new_Registry"
  have a: "fst (reg_object demo_name ?r) = 1"
    by (simp add: field_lookup_def reg_object_def reg_field_def reg_slot_def canonicalObject_def
        canonicalField_def slot_def new_Registry_def demo_obj_def demo_name_def Let_def)
  have b: "fst (field_lookup 0 demo_obj ''Attribute'' demo_name ?r) = 0"
    by (simp add: field_lookup_def reg_object_def reg_field_def reg_slot_def canonicalObject_def
        canonicalField_def slot_def new_Registry_def demo_obj_def demo_name_def Let_def)
  note t = canonical_lookups_stable [where cs = "[FieldLookup 0 demo_obj ''Attribute'' demo_name]"
      and ds = "[CanonicalObject demo_obj, AddValues 0 {1}]" and d = demo_name
      and ctx = 0 and obj = demo_obj and fkind = "''Attribute''" and name_obj = demo_name
      and k = "''Attribute''" and i = 1 and own = "OwnerObject 0" and fk = 0 and knd = FieldSlot
      and knd' = FieldSlot, unfolded Let_def]
  from t have x: "reg_object demo_name
     (registry_run [CanonicalObject demo_obj, AddValues 0 {1}] (snd (reg_object demo_name ?r)))
     = (fst (reg_object demo_name ?r),
        registry_run [CanonicalObject demo_obj, AddValues 0 {1}] (snd (reg_object demo_name ?r)))"
    by (rule conjunct1)
  from t have y: "field_lookup 0 demo_obj ''Attribute'' demo_name
        (registry_run [CanonicalObject demo_obj, AddValues 0 {1}]
          (snd (field_lookup 0 demo_obj ''Attribute'' demo_name ?r)))
     = (fst (field_lookup 0 demo_obj ''Attribute'' demo_name ?r),
        registry_run [CanonicalObject demo_obj, AddValues 0 {1}]
          (snd (field_lookup 0 demo_obj ''Attribute'' demo_name ?r)))"
    by blast
  show ?thesis
    unfolding x y a b by simp
qed

end
